theory Spec2Isabelle
  imports Complex_Main "HOL-Library.Log_Nat"
begin

section \<open>The streaming client of \<^verbatim>\<open>client/src/hooks/useWebSocket.ts\<close>\<close>

text \<open>
  The hook \<^verbatim>\<open>useWebSocket\<close> keeps one WebSocket to the market-data server alive.
  Everything it owns is a React state cell or a ref; its callbacks run one at a time on
  the browser's event loop.  The embedding is a record of those cells together with the
  part of the browser the hook talks to (the sockets it has created, the timers it has
  armed, and a millisecond clock), and one HOL function per source function, each taking
  the state and returning the updated one.
\<close>

subsection \<open>Inbound frames\<close>

text \<open>
  \<^verbatim>\<open>JSON.parse(event.data)\<close> either throws or yields a JavaScript value.  The value is
  kept as a JSON tree; an object is the list of its own properties, each key once.
  Numbers are rationals (every JSON number literal denotes one), which is exact for the
  only thing the hook does with a number here: test it for truthiness.
\<close>

datatype json =
    JNull
  | JBool bool
  | JNum rat
  | JStr string
  | JArr "json list"
  | JObj "(string \<times> json) list"

text \<open>Property read \<^verbatim>\<open>v.k\<close> on a non-null value; \<open>None\<close> is \<^verbatim>\<open>undefined\<close>.\<close>

fun getProp :: "json \<Rightarrow> string \<Rightarrow> json option" where
  "getProp (JObj kvs) k = map_of kvs k"
| "getProp _ k = None"

text \<open>JavaScript truthiness, as used by \<^verbatim>\<open>&&\<close> and \<^verbatim>\<open>if\<close>.\<close>

fun truthy :: "json option \<Rightarrow> bool" where
  "truthy None = False"
| "truthy (Some JNull) = False"
| "truthy (Some (JBool b)) = b"
| "truthy (Some (JNum x)) = (x \<noteq> 0)"
| "truthy (Some (JStr s)) = (s \<noteq> [])"
| "truthy (Some (JArr xs)) = True"
| "truthy (Some (JObj kvs)) = True"

subsection \<open>Constants\<close>

definition RECONNECT_DELAY :: nat where "RECONNECT_DELAY = 2000"
definition MAX_RECONNECT_DELAY :: nat where "MAX_RECONNECT_DELAY = 30000"
definition CONNECTION_TIMEOUT :: nat where "CONNECTION_TIMEOUT = 10000"
definition PING_INTERVAL :: nat where "PING_INTERVAL = 25000"

subsection \<open>The browser side: sockets and timers\<close>

datatype ready_state = CONNECTING | OPEN | CLOSING | CLOSED

text \<open>The arguments of a \<^verbatim>\<open>ws.close(...)\<close> call.\<close>

datatype close_call = CloseNoArgs | CloseWith nat string

text \<open>
  A socket created by \<^verbatim>\<open>new WebSocket(url)\<close>.  The four handler slots
  (\<^verbatim>\<open>onopen\<close>, \<^verbatim>\<open>onclose\<close>, \<^verbatim>\<open>onerror\<close>, \<^verbatim>\<open>onmessage\<close>) are always assigned together and
  set to \<^verbatim>\<open>null\<close> together, so one flag stands for them.  \<open>pings\<close> counts the
  \<^verbatim>\<open>{type:"ping"}\<close> frames sent on it.
\<close>

record socket =
  readyState :: ready_state
  handlers :: bool
  closeCall :: "close_call option"
  pings :: nat

text \<open>
  What a pending timer will run.  The connection timeout's closure captures the socket
  \<^verbatim>\<open>ws\<close> of its attempt; the others capture nothing but the refs.
\<close>

datatype timer_kind =
    ReconnectTimer
  | ConnectionTimer nat
  | PingTimer
  | GraceTimer
  | MountTimer

text \<open>
  A timer id is an index into the list of all timers ever armed; the entry is \<open>None\<close>
  once the timer has been cleared or, for a timeout, has fired.  The second component
  is the clock value at which the timer is due.
\<close>

type_synonym timer = "timer_kind \<times> nat"

subsection \<open>The state of the hook\<close>

datatype conn_state = Disconnected | Connecting | Connected

text \<open>
  The texts passed to \<^verbatim>\<open>setError\<close>, one constructor per string of the source:
  \<^verbatim>\<open>"Connecting..."\<close>, \<^verbatim>\<open>"Reconnecting in ${n}s..."\<close>,
  \<^verbatim>\<open>"Connection timeout - is the server running?"\<close>, \<^verbatim>\<open>"Connection lost - reconnecting..."\<close>,
  \<^verbatim>\<open>"Failed to create connection"\<close> and \<^verbatim>\<open>"Network offline"\<close>.
\<close>

datatype status_text =
    MsgConnecting
  | MsgReconnectingIn nat
  | MsgConnectionTimeout
  | MsgConnectionLost
  | MsgFailedToCreate
  | MsgNetworkOffline

record session =
  data :: "json option"
  isConnected :: bool
  error :: "status_text option"
  signalHistory :: json
  wsRef :: "nat option"
  reconnectTimeoutRef :: "nat option"
  connectionTimeoutRef :: "nat option"
  pingIntervalRef :: "nat option"
  reconnectAttemptsRef :: nat
  isMountedRef :: bool
  isCleaningUpRef :: bool
  connectionStateRef :: conn_state
  connectTimeout :: "nat option"
  sockets :: "socket list"
  timers :: "timer option list"
  clock :: nat

text \<open>
  \<open>connectTimeout\<close> is the local variable of the main effect that its cleanup closure
  captures.  The state before the first effect runs:
\<close>

definition initial :: session where
  "initial = \<lparr> data = None, isConnected = False, error = None, signalHistory = JArr [],
     wsRef = None, reconnectTimeoutRef = None, connectionTimeoutRef = None,
     pingIntervalRef = None, reconnectAttemptsRef = 0, isMountedRef = False,
     isCleaningUpRef = False, connectionStateRef = Disconnected, connectTimeout = None,
     sockets = [], timers = [], clock = 0 \<rparr>"

subsection \<open>Browser primitives\<close>

text \<open>
  \<^verbatim>\<open>clearTimeout(id)\<close> / \<^verbatim>\<open>clearInterval(id)\<close> behind the source's \<^verbatim>\<open>if (ref.current)\<close>.
  The browser's timer ids are positive, so the test asks whether the ref holds an id;
  clearing a timer that is spent or already cleared does nothing.
\<close>

definition clearTimeout :: "nat option \<Rightarrow> timer option list \<Rightarrow> timer option list" where
  "clearTimeout r ts = (case r of None \<Rightarrow> ts | Some t \<Rightarrow> ts[t := None])"

text \<open>\<^verbatim>\<open>ws.close(...)\<close>: starts closing a socket that is connecting or open, else does nothing.\<close>

definition close_socket :: "close_call \<Rightarrow> socket \<Rightarrow> socket" where
  "close_socket a k =
     (if readyState k = CONNECTING \<or> readyState k = OPEN
      then k\<lparr>readyState := CLOSING, closeCall := Some a\<rparr> else k)"

definition upd_socket :: "nat \<Rightarrow> (socket \<Rightarrow> socket) \<Rightarrow> session \<Rightarrow> session" where
  "upd_socket w f s = s\<lparr>sockets := (sockets s)[w := f (sockets s ! w)]\<rparr>"

definition ready :: "session \<Rightarrow> nat \<Rightarrow> ready_state" where
  "ready s w = readyState (sockets s ! w)"

subsection \<open>JavaScript numbers\<close>

text \<open>
  A JavaScript number is an IEEE 754 binary64 value, and \<^verbatim>\<open>*\<close> and \<^verbatim>\<open>+\<close> return the exact
  result rounded to the nearest such value, a tie going to the even significand.  The
  finite values are kept as rationals.  \<open>rne m\<close> is the integer nearest to \<open>m\<close>, ties to
  even; \<open>expo x\<close> is the binary exponent of a positive \<open>x\<close>, the \<open>e\<close> with
  \<open>2 powi e \<le> x < 2 powi (e + 1)\<close>; \<open>ulp x\<close> is the distance between neighbouring
  doubles at \<open>x\<close>: 53 significant bits, and the fixed spacing \<open>2 powi (- 1074)\<close> of the
  subnormal range below \<open>2 powi (- 1022)\<close>; \<open>fl x\<close> is \<open>x\<close> rounded to a double.  The
  exponent is not bounded above, so \<open>fl\<close> never yields \<^verbatim>\<open>Infinity\<close>; the one
  operation of the hook that can overflow is discussed at \<open>baseDelay\<close>.
\<close>

definition rne :: "rat \<Rightarrow> int" where
  "rne m = (let f = \<lfloor>m\<rfloor>; d = m - of_int f
            in if d < 1 / 2 then f else if 1 / 2 < d then f + 1
               else if even f then f else f + 1)"

definition expo :: "rat \<Rightarrow> int" where
  "expo x = (let (p, q) = quotient_of x; a = bitlen p - bitlen q
             in if 2 powi a \<le> x then a else a - 1)"

definition ulp :: "rat \<Rightarrow> rat" where
  "ulp x = 2 powi (max (expo x) (- 1022) - 52)"

definition fl :: "rat \<Rightarrow> rat" where
  "fl x = (if x < 0 then - (of_int (rne (- x / ulp (- x))) * ulp (- x))
           else of_int (rne (x / ulp x)) * ulp x)"

subsection \<open>The functions of the hook\<close>

definition clearTimers :: "session \<Rightarrow> session" where
  "clearTimers s =
     s\<lparr>timers := clearTimeout (pingIntervalRef s)
                  (clearTimeout (connectionTimeoutRef s)
                    (clearTimeout (reconnectTimeoutRef s) (timers s))),
       reconnectTimeoutRef := None,
       connectionTimeoutRef := None,
       pingIntervalRef := None\<rparr>"

text \<open>
  What \<^verbatim>\<open>cleanup\<close> does to the socket it holds: the four handlers are set to \<^verbatim>\<open>null\<close>,
  then the socket is closed, with code 1000 and reason \<^verbatim>\<open>"Client cleanup"\<close> if it is open,
  with no arguments if it is still connecting.
\<close>

definition detachAndClose :: "socket \<Rightarrow> socket" where
  "detachAndClose k =
     (let k' = k\<lparr>handlers := False\<rparr>
      in if readyState k' = OPEN then close_socket (CloseWith 1000 ''Client cleanup'') k'
         else if readyState k' = CONNECTING then close_socket CloseNoArgs k'
         else k')"

definition cleanup :: "bool \<Rightarrow> session \<Rightarrow> session" where
  "cleanup closeSocket s =
     (let s1 = clearTimers (s\<lparr>isCleaningUpRef := True\<rparr>);
          s2 = (case wsRef s1 of
                  None \<Rightarrow> s1
                | Some w \<Rightarrow>
                    if closeSocket then (upd_socket w detachAndClose s1)\<lparr>wsRef := None\<rparr>
                    else s1)
      in s2\<lparr>connectionStateRef := Disconnected, isCleaningUpRef := False\<rparr>)"

definition startPingInterval :: "session \<Rightarrow> session" where
  "startPingInterval s =
     (let ts = clearTimeout (pingIntervalRef s) (timers s)
      in s\<lparr>timers := ts @ [Some (PingTimer, clock s + PING_INTERVAL)],
           pingIntervalRef := Some (length ts)\<rparr>)"

text \<open>
  The backoff, with \<open>n\<close> the attempt count after the increment and \<open>rnd\<close> the value
  \<^verbatim>\<open>Math.random()\<close> returns:
  \<^verbatim>\<open>Math.min(RECONNECT_DELAY * Math.pow(1.5, n - 1), MAX_RECONNECT_DELAY)\<close>, then
  \<^verbatim>\<open>Math.floor(baseDelay + Math.random() * 1000)\<close>, every product and sum rounded to a
  double.  \<^verbatim>\<open>Math.pow\<close> is taken to return the power rounded to a double.  For
  \<open>n \<le> 8\<close> the power \<open>(3/2) ^ (n - 1)\<close> and its product with 2000 are doubles
  themselves and nothing is rounded; for \<open>n \<ge> 8\<close> the product is above 34000, also
  when the power has grown to \<^verbatim>\<open>Infinity\<close>, and \<^verbatim>\<open>Math.min\<close> returns 30000.
\<close>

definition baseDelay :: "nat \<Rightarrow> rat" where
  "baseDelay n =
     min (fl (of_nat RECONNECT_DELAY * fl ((3 / 2) ^ (n - 1)))) (of_nat MAX_RECONNECT_DELAY)"

definition reconnectDelay :: "nat \<Rightarrow> rat \<Rightarrow> nat" where
  "reconnectDelay n rnd = nat \<lfloor>fl (baseDelay n + fl (rnd * 1000))\<rfloor>"

text \<open>\<^verbatim>\<open>Math.round(delay / 1000)\<close> for a non-negative integer \<open>delay\<close>.\<close>

definition roundSeconds :: "nat \<Rightarrow> nat" where
  "roundSeconds delay = (delay + 500) div 1000"

definition scheduleReconnect :: "rat \<Rightarrow> session \<Rightarrow> session" where
  "scheduleReconnect rnd s =
     (if \<not> isMountedRef s \<or> isCleaningUpRef s then s
      else
        let ts = clearTimeout (reconnectTimeoutRef s) (timers s);
            n = reconnectAttemptsRef s + 1;
            delay = reconnectDelay n rnd
        in s\<lparr>reconnectAttemptsRef := n,
             error := Some (MsgReconnectingIn (roundSeconds delay)),
             timers := ts @ [Some (ReconnectTimer, clock s + delay)],
             reconnectTimeoutRef := Some (length ts)\<rparr>)"

text \<open>
  \<^verbatim>\<open>connect\<close>.  \<open>throws\<close> says whether \<^verbatim>\<open>new WebSocket(WEBSOCKET_URL)\<close> throws, which
  sends control to the \<^verbatim>\<open>catch\<close> block.  A new socket gets the next index, starts in
  \<open>CONNECTING\<close> and has its four handlers assigned before \<^verbatim>\<open>connect\<close> returns.
\<close>

definition live :: "session \<Rightarrow> bool" where
  "live s = (case wsRef s of
               None \<Rightarrow> False
             | Some w \<Rightarrow> ready s w = OPEN \<or> ready s w = CONNECTING)"

text \<open>
  The block of \<^verbatim>\<open>connect\<close> that lets go of a dead socket: handlers to \<^verbatim>\<open>null\<close>,
  reference to \<^verbatim>\<open>null\<close>, and no \<^verbatim>\<open>close()\<close>.
\<close>

definition dropSocket :: "session \<Rightarrow> session" where
  "dropSocket s =
     (case wsRef s of
        None \<Rightarrow> s
      | Some w \<Rightarrow> (upd_socket w (\<lambda>k. k\<lparr>handlers := False\<rparr>) s)\<lparr>wsRef := None\<rparr>)"

definition connect :: "bool \<Rightarrow> rat \<Rightarrow> session \<Rightarrow> session" where
  "connect throws rnd s =
     (if \<not> isMountedRef s \<or> isCleaningUpRef s then s
      else if live s then s
      else
        let s1 = dropSocket s;
            s2 = clearTimers s1;
            s3 = s2\<lparr>connectionStateRef := Connecting, error := Some MsgConnecting\<rparr>
        in if throws then
             (let s4 = s3\<lparr>connectionStateRef := Disconnected,
                         error := Some MsgFailedToCreate,
                         isConnected := False\<rparr>
              in if isMountedRef s4 then scheduleReconnect rnd s4 else s4)
           else
             (let w = length (sockets s3)
              in s3\<lparr>sockets := sockets s3 @
                       [\<lparr>readyState = CONNECTING, handlers = True, closeCall = None, pings = 0\<rparr>],
                    wsRef := Some w,
                    timers := timers s3 @ [Some (ConnectionTimer w, clock s3 + CONNECTION_TIMEOUT)],
                    connectionTimeoutRef := Some (length (timers s3))\<rparr>))"

text \<open>The callback armed by \<^verbatim>\<open>connect\<close> with \<^verbatim>\<open>CONNECTION_TIMEOUT\<close>; \<open>w\<close> is its \<^verbatim>\<open>ws\<close>.\<close>

definition connectionTimeoutHandler :: "nat \<Rightarrow> rat \<Rightarrow> session \<Rightarrow> session" where
  "connectionTimeoutHandler w rnd s =
     (if wsRef s = Some w \<and> ready s w \<noteq> OPEN then
        let s1 = upd_socket w (close_socket CloseNoArgs) s;
            s2 = s1\<lparr>connectionStateRef := Disconnected,
                    error := Some MsgConnectionTimeout,
                    isConnected := False\<rparr>
        in if isMountedRef s2 then scheduleReconnect rnd s2 else s2
      else s)"

definition onopen :: "nat \<Rightarrow> session \<Rightarrow> session" where
  "onopen w s =
     (if wsRef s \<noteq> Some w then upd_socket w (close_socket CloseNoArgs) s
      else
        let s1 = s\<lparr>connectionStateRef := Connected, isConnected := True, error := None,
                   reconnectAttemptsRef := 0\<rparr>;
            s2 = s1\<lparr>timers := clearTimeout (connectionTimeoutRef s1) (timers s1),
                    connectionTimeoutRef := None\<rparr>
        in startPingInterval s2)"

text \<open>
  The body of the \<^verbatim>\<open>try\<close> in \<^verbatim>\<open>ws.onmessage\<close>, for a frame that parsed to the value
  \<open>m\<close>.  Reading \<^verbatim>\<open>message.type\<close> of \<^verbatim>\<open>null\<close> throws a TypeError, which the same
  \<^verbatim>\<open>catch\<close> swallows.  The setters receive the property as it is; where \<open>the\<close> is
  applied the property is truthy, hence defined.
\<close>

definition dispatch :: "json \<Rightarrow> session \<Rightarrow> session" where
  "dispatch m s =
     (if m = JNull then s
      else if getProp m ''type'' = Some (JStr ''market_data'') \<and> truthy (getProp m ''data'') then
        let s1 = s\<lparr>data := getProp m ''data'', error := None\<rparr>
        in if truthy (getProp m ''signal_history'')
           then s1\<lparr>signalHistory := the (getProp m ''signal_history'')\<rparr> else s1
      else if getProp m ''type'' = Some (JStr ''signal_history'') \<and> truthy (getProp m ''data'') then
        s\<lparr>signalHistory := the (getProp m ''data'')\<rparr>
      else s)"

text \<open>\<open>frame = None\<close>: \<^verbatim>\<open>JSON.parse\<close> threw a SyntaxError.\<close>

definition onmessage :: "nat \<Rightarrow> json option \<Rightarrow> session \<Rightarrow> session" where
  "onmessage w frame s =
     (if wsRef s \<noteq> Some w then s
      else case frame of None \<Rightarrow> s | Some m \<Rightarrow> dispatch m s)"

definition onerror :: "nat \<Rightarrow> session \<Rightarrow> session" where
  "onerror w s = (if wsRef s \<noteq> Some w then s else s)"

definition onclose :: "nat \<Rightarrow> nat \<Rightarrow> string \<Rightarrow> rat \<Rightarrow> session \<Rightarrow> session" where
  "onclose w code reason rnd s =
     (if wsRef s \<noteq> Some w then s
      else
        let s1 = clearTimers (s\<lparr>connectionStateRef := Disconnected, isConnected := False\<rparr>)
        in if isCleaningUpRef s1 \<or> \<not> isMountedRef s1 then s1
           else if code = 1000 \<and> reason = ''Client cleanup'' then s1
           else scheduleReconnect rnd (s1\<lparr>error := Some MsgConnectionLost\<rparr>))"

text \<open>The manual \<^verbatim>\<open>reconnect\<close> and the callback of its untracked 100 ms timer.\<close>

definition reconnect :: "session \<Rightarrow> session" where
  "reconnect s =
     (let s1 = cleanup True (s\<lparr>reconnectAttemptsRef := 0\<rparr>)
      in s1\<lparr>timers := timers s1 @ [Some (GraceTimer, clock s1 + 100)]\<rparr>)"

definition graceHandler :: "bool \<Rightarrow> rat \<Rightarrow> session \<Rightarrow> session" where
  "graceHandler throws rnd s = (if isMountedRef s then connect throws rnd s else s)"

definition reconnectHandler :: "bool \<Rightarrow> rat \<Rightarrow> session \<Rightarrow> session" where
  "reconnectHandler throws rnd s =
     (if isMountedRef s \<and> \<not> isCleaningUpRef s then connect throws rnd s else s)"

definition pingHandler :: "session \<Rightarrow> session" where
  "pingHandler s =
     (case wsRef s of
        None \<Rightarrow> s
      | Some w \<Rightarrow> if ready s w = OPEN then upd_socket w (\<lambda>k. k\<lparr>pings := pings k + 1\<rparr>) s else s)"

text \<open>\<^verbatim>\<open>!wsRef.current || wsRef.current.readyState !== WebSocket.OPEN\<close> is \<open>\<not> isOpen s\<close>.\<close>

definition isOpen :: "session \<Rightarrow> bool" where
  "isOpen s = (case wsRef s of None \<Rightarrow> False | Some w \<Rightarrow> ready s w = OPEN)"

definition handleVisibilityChange :: "bool \<Rightarrow> bool \<Rightarrow> rat \<Rightarrow> session \<Rightarrow> session" where
  "handleVisibilityChange visible throws rnd s =
     (if visible \<and> isMountedRef s then
        (if \<not> isOpen s then connect throws rnd (s\<lparr>reconnectAttemptsRef := 0\<rparr>) else s)
      else s)"

definition handleOnline :: "bool \<Rightarrow> rat \<Rightarrow> session \<Rightarrow> session" where
  "handleOnline throws rnd s =
     (if isMountedRef s then connect throws rnd (s\<lparr>reconnectAttemptsRef := 0\<rparr>) else s)"

definition handleOffline :: "session \<Rightarrow> session" where
  "handleOffline s = s\<lparr>error := Some MsgNetworkOffline, isConnected := False\<rparr>"

text \<open>The main effect and its cleanup, which is the hook's \<^emph>\<open>stop\<close>.\<close>

definition mountEffect :: "session \<Rightarrow> session" where
  "mountEffect s =
     s\<lparr>isMountedRef := True,
       timers := timers s @ [Some (MountTimer, clock s + 50)],
       connectTimeout := Some (length (timers s))\<rparr>"

definition mountHandler :: "bool \<Rightarrow> rat \<Rightarrow> session \<Rightarrow> session" where
  "mountHandler throws rnd s = (if isMountedRef s then connect throws rnd s else s)"

definition unmountEffect :: "session \<Rightarrow> session" where
  "unmountEffect s =
     cleanup True (s\<lparr>timers := clearTimeout (connectTimeout s) (timers s),
                     isMountedRef := False\<rparr>)"

subsection \<open>The event loop\<close>

text \<open>
  One event is one task of the browser's event loop.  \<open>Fire t\<close> runs the callback of
  timer \<open>t\<close>, which the browser does only for a pending timer that is due; a timeout
  is then spent, an interval is re-armed.  The socket events are the browser's:
  it sets \<^verbatim>\<open>readyState\<close> and then calls the handler, if one is still assigned; a message
  is delivered only on an open socket.  The window and document listeners exist
  between the effects' set-up and clean-up, that is, while \<open>isMountedRef\<close> holds.
\<close>

datatype event =
    Mount
  | Unmount
  | ManualReconnect
  | VisibilityChange bool
  | Online
  | Offline
  | Advance nat
  | Fire nat
  | SockOpen nat
  | SockMessage nat "json option"
  | SockError nat
  | SockClose nat nat string

definition runTimer :: "timer_kind \<Rightarrow> bool \<Rightarrow> rat \<Rightarrow> session \<Rightarrow> session" where
  "runTimer k throws rnd s =
     (case k of
        ReconnectTimer \<Rightarrow> reconnectHandler throws rnd s
      | ConnectionTimer w \<Rightarrow> connectionTimeoutHandler w rnd s
      | PingTimer \<Rightarrow> pingHandler s
      | GraceTimer \<Rightarrow> graceHandler throws rnd s
      | MountTimer \<Rightarrow> mountHandler throws rnd s)"

definition fire :: "nat \<Rightarrow> bool \<Rightarrow> rat \<Rightarrow> session \<Rightarrow> session" where
  "fire t throws rnd s =
     (if t < length (timers s) then
        (case timers s ! t of
           None \<Rightarrow> s
         | Some (k, due) \<Rightarrow>
             if clock s < due then s
             else runTimer k throws rnd
                    (s\<lparr>timers := (timers s)[t := (if k = PingTimer
                                                  then Some (k, due + PING_INTERVAL) else None)]\<rparr>))
      else s)"

definition step :: "bool \<Rightarrow> rat \<Rightarrow> event \<Rightarrow> session \<Rightarrow> session" where
  "step throws rnd e s =
     (case e of
        Mount \<Rightarrow> mountEffect s
      | Unmount \<Rightarrow> unmountEffect s
      | ManualReconnect \<Rightarrow> reconnect s
      | VisibilityChange v \<Rightarrow>
          if isMountedRef s then handleVisibilityChange v throws rnd s else s
      | Online \<Rightarrow> if isMountedRef s then handleOnline throws rnd s else s
      | Offline \<Rightarrow> if isMountedRef s then handleOffline s else s
      | Advance d \<Rightarrow> s\<lparr>clock := clock s + d\<rparr>
      | Fire t \<Rightarrow> fire t throws rnd s
      | SockOpen w \<Rightarrow>
          if w < length (sockets s) \<and> ready s w = CONNECTING then
            (let s1 = upd_socket w (\<lambda>k. k\<lparr>readyState := OPEN\<rparr>) s
             in if handlers (sockets s ! w) then onopen w s1 else s1)
          else s
      | SockMessage w frame \<Rightarrow>
          if w < length (sockets s) \<and> ready s w = OPEN \<and> handlers (sockets s ! w)
          then onmessage w frame s else s
      | SockError w \<Rightarrow>
          if w < length (sockets s) \<and> handlers (sockets s ! w) then onerror w s else s
      | SockClose w code reason \<Rightarrow>
          if w < length (sockets s) \<and> ready s w \<noteq> CLOSED then
            (let s1 = upd_socket w (\<lambda>k. k\<lparr>readyState := CLOSED\<rparr>) s
             in if handlers (sockets s ! w) then onclose w code reason rnd s1 else s1)
          else s)"

text \<open>
  A run: the events in order, each with what the environment answers during it
  (whether the constructor throws, and the random number).
\<close>

fun run :: "(bool \<times> rat \<times> event) list \<Rightarrow> session \<Rightarrow> session" where
  "run [] s = s"
| "run ((throws, rnd, e) # es) s = run es (step throws rnd e s)"

subsection \<open>Notions used to state the properties\<close>

text \<open>
  \<open>untouched s s'\<close>: everything the hook itself owns has the same value in \<open>s'\<close>
  as in \<open>s\<close>: the snapshot, the history, the connection state and flag, the status
  text, the attempt counter, the current socket reference, and the timers with their
  three refs.
\<close>

definition untouched :: "session \<Rightarrow> session \<Rightarrow> bool" where
  "untouched s s' \<longleftrightarrow>
     data s' = data s \<and> signalHistory s' = signalHistory s \<and>
     connectionStateRef s' = connectionStateRef s \<and> isConnected s' = isConnected s \<and>
     error s' = error s \<and> reconnectAttemptsRef s' = reconnectAttemptsRef s \<and>
     wsRef s' = wsRef s \<and> timers s' = timers s \<and>
     reconnectTimeoutRef s' = reconnectTimeoutRef s \<and>
     connectionTimeoutRef s' = connectionTimeoutRef s \<and>
     pingIntervalRef s' = pingIntervalRef s"

text \<open>Pending reconnect timers, and transports that are open, or open or connecting.\<close>

fun isReconnect :: "timer option \<Rightarrow> bool" where
  "isReconnect (Some (ReconnectTimer, due)) = True"
| "isReconnect _ = False"

definition isLive :: "socket \<Rightarrow> bool" where
  "isLive k \<longleftrightarrow> readyState k = OPEN \<or> readyState k = CONNECTING"

definition pendingReconnects :: "session \<Rightarrow> nat" where
  "pendingReconnects s = length (filter isReconnect (timers s))"

definition openTransports :: "session \<Rightarrow> nat" where
  "openTransports s = length (filter (\<lambda>k. readyState k = OPEN) (sockets s))"

definition liveTransports :: "session \<Rightarrow> nat" where
  "liveTransports s = length (filter isLive (sockets s))"

text \<open>
  What holds between any two events of a run.  Every socket that is open or connecting
  is the one \<open>wsRef\<close> holds, and that one exists and has its handlers; every pending
  reconnect timer is the one \<open>reconnectTimeoutRef\<close> holds; and \<open>isCleaningUpRef\<close>,
  which \<^verbatim>\<open>cleanup\<close> raises and lowers again before it returns, is down.
\<close>

definition sockets_ok :: "socket list \<Rightarrow> nat option \<Rightarrow> bool" where
  "sockets_ok ks r \<longleftrightarrow>
     (\<forall>w<length ks. isLive (ks ! w) \<longrightarrow> r = Some w) \<and>
     (\<forall>w. r = Some w \<longrightarrow> w < length ks \<and> handlers (ks ! w))"

definition timers_ok :: "timer option list \<Rightarrow> nat option \<Rightarrow> bool" where
  "timers_ok ts r \<longleftrightarrow> (\<forall>t<length ts. isReconnect (ts ! t) \<longrightarrow> r = Some t)"

definition inv_S :: "session \<Rightarrow> bool" where
  "inv_S s \<longleftrightarrow> sockets_ok (sockets s) (wsRef s)"

definition inv_T :: "session \<Rightarrow> bool" where
  "inv_T s \<longleftrightarrow> timers_ok (timers s) (reconnectTimeoutRef s)"

definition invariant :: "session \<Rightarrow> bool" where
  "invariant s \<longleftrightarrow> \<not> isCleaningUpRef s \<and> inv_S s \<and> inv_T s"

text \<open>
  \<open>openOn w s\<close>: socket \<open>w\<close> is the current one and is open, the hook is mounted,
  and no failure has been counted since it opened.  \<open>keepsOpen w e\<close>: the event is
  neither the unmount, nor a manual reconnect, nor the close of socket \<open>w\<close>.
\<close>

definition openOn :: "nat \<Rightarrow> session \<Rightarrow> bool" where
  "openOn w s \<longleftrightarrow>
     wsRef s = Some w \<and> w < length (sockets s) \<and> ready s w = OPEN \<and>
     handlers (sockets s ! w) \<and> isMountedRef s \<and> \<not> isCleaningUpRef s \<and>
     reconnectAttemptsRef s = 0"

fun keepsOpen :: "nat \<Rightarrow> event \<Rightarrow> bool" where
  "keepsOpen w Unmount = False"
| "keepsOpen w ManualReconnect = False"
| "keepsOpen w (SockClose w' code reason) = (w' \<noteq> w)"
| "keepsOpen w e = True"

text \<open>
  \<open>stopped s\<close>: the state the effect's cleanup leaves behind: unmounted, holding no
  socket, disconnected.  \<open>notMount e\<close>: the event is not a new mount.
\<close>

definition stopped :: "session \<Rightarrow> bool" where
  "stopped s \<longleftrightarrow> \<not> isMountedRef s \<and> wsRef s = None \<and> connectionStateRef s = Disconnected"

fun notMount :: "event \<Rightarrow> bool" where
  "notMount Mount = False"
| "notMount e = True"

text \<open>
  The history a parsed frame carries, if the dispatcher accepts one from it, and the
  number of records in a history (\<^verbatim>\<open>signalHistory.length\<close>).
\<close>

definition historyPayload :: "json \<Rightarrow> json option" where
  "historyPayload m =
     (if getProp m ''type'' = Some (JStr ''market_data'') \<and> truthy (getProp m ''data'') then
        (if truthy (getProp m ''signal_history'') then getProp m ''signal_history'' else None)
      else if getProp m ''type'' = Some (JStr ''signal_history'') \<and> truthy (getProp m ''data'')
      then getProp m ''data'' else None)"

fun historyLength :: "json \<Rightarrow> nat" where
  "historyLength (JArr xs) = length xs"
| "historyLength _ = 0"

text \<open>
  \<open>randomValue rnd\<close>: \<open>rnd\<close> is a value \<^verbatim>\<open>Math.random()\<close> can return, a double that is
  at least 0 and less than 1.
\<close>

definition randomValue :: "rat \<Rightarrow> bool" where
  "randomValue rnd \<longleftrightarrow> fl rnd = rnd \<and> 0 \<le> rnd \<and> rnd < 1"

text \<open>
  \<open>isLostClosure e s\<close>: in state \<open>s\<close> the event \<open>e\<close> is a lost closure: the close event
  of the current socket, delivered to its handler while the hook is mounted, with
  anything but code 1000 and the reason \<^verbatim>\<open>"Client cleanup"\<close>.  These are the close
  events on which \<^verbatim>\<open>ws.onclose\<close> reaches \<^verbatim>\<open>scheduleReconnect\<close>.
\<close>

fun isLostClosure :: "event \<Rightarrow> session \<Rightarrow> bool" where
  "isLostClosure (SockClose w code reason) s =
     (w < length (sockets s) \<and> ready s w \<noteq> CLOSED \<and> handlers (sockets s ! w) \<and>
      wsRef s = Some w \<and> isMountedRef s \<and> \<not> isCleaningUpRef s \<and>
      \<not> (code = 1000 \<and> reason = ''Client cleanup''))"
| "isLostClosure e s = False"

text \<open>
  \<open>steady e s\<close>: the event is none of those that write the attempt counter by another
  way: a manual reconnect, the network coming online and the page becoming visible
  reset it, the open event of a socket resets it, and the firing of a connection timeout
  counts a failure of its own.  \<open>steadyRun es s\<close>: every event of the run \<open>es\<close> from
  \<open>s\<close> is steady, and \<^verbatim>\<open>new WebSocket\<close> never throws.  \<open>lostCount es s\<close>: the number
  of lost closures in that run.
\<close>

fun isTimeout :: "timer option \<Rightarrow> bool" where
  "isTimeout (Some (ConnectionTimer w, due)) = True"
| "isTimeout _ = False"

fun steady :: "event \<Rightarrow> session \<Rightarrow> bool" where
  "steady ManualReconnect s = False"
| "steady Online s = False"
| "steady (VisibilityChange v) s = (\<not> v)"
| "steady (SockOpen w) s = False"
| "steady (Fire t) s = (\<not> (t < length (timers s) \<and> isTimeout (timers s ! t)))"
| "steady e s = True"

fun steadyRun :: "(bool \<times> rat \<times> event) list \<Rightarrow> session \<Rightarrow> bool" where
  "steadyRun [] s = True"
| "steadyRun ((throws, rnd, e) # es) s =
     (\<not> throws \<and> steady e s \<and> steadyRun es (step throws rnd e s))"

fun lostCount :: "(bool \<times> rat \<times> event) list \<Rightarrow> session \<Rightarrow> nat" where
  "lostCount [] s = 0"
| "lostCount ((throws, rnd, e) # es) s =
     (if isLostClosure e s then 1 else 0) + lostCount es (step throws rnd e s)"

subsection \<open>Sessions and traces used as examples\<close>

text \<open>
  The hook 50 ms after mounting, with its first socket connecting; the same once that
  socket has opened; and the connecting one with three failures already counted.
\<close>

definition connectingState :: session where
  "connectingState = run [(False, 0, Mount), (False, 0, Advance 50), (False, 0, Fire 0)] initial"

definition openState :: session where
  "openState = run [(False, 0, SockOpen 0)] connectingState"

definition retriedState :: session where
  "retriedState = connectingState\<lparr>reconnectAttemptsRef := 3\<rparr>"

text \<open>
  The first attempt never opens: ten seconds later the connection timeout fires
  (\<open>timedOutState\<close>), and then the browser reports the socket that the timeout closed as
  closed, with code 1006 and no reason (\<open>closedState\<close>).  \<^verbatim>\<open>Math.random()\<close> is 0.5.
\<close>

definition timedOutState :: session where
  "timedOutState = run [(False, 1 / 2, Advance 10000), (False, 1 / 2, Fire 1)] connectingState"

definition closedState :: session where
  "closedState = step False (1 / 2) (SockClose 0 1006 []) timedOutState"

text \<open>Mount, manual reconnect and unmount, all within the same instant.\<close>

definition stopTrace :: "(bool \<times> rat \<times> event) list" where
  "stopTrace = [(False, 0, Mount), (False, 0, ManualReconnect), (False, 0, Unmount)]"

text \<open>Things that happen while a connection stays up, and things that happen after a stop.\<close>

definition quietTrace :: "(bool \<times> rat \<times> event) list" where
  "quietTrace = [(False, 0, SockMessage 0 None), (True, 0, Online), (False, 0, Advance 1000)]"

definition afterStopTrace :: "(bool \<times> rat \<times> event) list" where
  "afterStopTrace = [(False, 0, Advance 30000), (False, 0, Fire 2), (False, 0, Online),
                     (False, 0, VisibilityChange True), (False, 0, SockClose 0 1000 ''Client cleanup'')]"

text \<open>
  A \<^verbatim>\<open>market_data\<close> frame that carries a history list but no \<^verbatim>\<open>data\<close> field, and a
  \<^verbatim>\<open>signal_history\<close> frame with \<open>n\<close> records.
\<close>

definition historyOnlyFrame :: json where
  "historyOnlyFrame =
     JObj [(''type'', JStr ''market_data''), (''signal_history'', JArr [JStr ''BUY''])]"

definition historyFrame :: "nat \<Rightarrow> json" where
  "historyFrame n = JObj [(''type'', JStr ''signal_history''), (''data'', JArr (replicate n JNull))]"

text \<open>
  The server is down: each socket is refused (close code 1006, no reason) before it
  opens, and each retry starts exactly when its timer is due.  \<^verbatim>\<open>Math.random()\<close> is 0
  throughout.  \<open>lostTrace\<close> holds the first five closures, each followed by its retry.
\<close>

definition lostTrace :: "(bool \<times> rat \<times> event) list" where
  "lostTrace =
     [(False, 0, SockClose 0 1006 []), (False, 0, Advance 2000), (False, 0, Fire 2),
      (False, 0, SockClose 1 1006 []), (False, 0, Advance 3000), (False, 0, Fire 4),
      (False, 0, SockClose 2 1006 []), (False, 0, Advance 4500), (False, 0, Fire 6),
      (False, 0, SockClose 3 1006 []), (False, 0, Advance 6750), (False, 0, Fire 8),
      (False, 0, SockClose 4 1006 []), (False, 0, Advance 10125), (False, 0, Fire 10)]"

text \<open>
  The connection is lost, the network comes back online, and the socket made then is
  lost too.
\<close>

definition onlineTrace :: "(bool \<times> rat \<times> event) list" where
  "onlineTrace = [(False, 0, SockClose 0 1006 []), (False, 0, Online)]"

section \<open>Properties\<close>

subsection \<open>Clearing timers\<close>

lemma length_clearTimeout [simp]: "length (clearTimeout r ts) = length ts"
  by (simp add: clearTimeout_def split: option.split)

lemma clearTimeout_idem [simp]: "clearTimeout r (clearTimeout r ts) = clearTimeout r ts"
  by (simp add: clearTimeout_def split: option.split)

lemma clearTimeout_commute:
  "clearTimeout a (clearTimeout b ts) = clearTimeout b (clearTimeout a ts)"
proof (cases a)
  case None
  then show ?thesis by (simp add: clearTimeout_def)
next
  case a: (Some i)
  show ?thesis
  proof (cases b)
    case None
    then show ?thesis by (simp add: clearTimeout_def)
  next
    case (Some j)
    with a show ?thesis
      by (cases "i = j") (simp_all add: clearTimeout_def list_update_swap)
  qed
qed

lemma clearTimeout_nth:
  "t < length ts \<Longrightarrow> clearTimeout r ts ! t = (if r = Some t then None else ts ! t)"
  by (cases r) (auto simp: clearTimeout_def)

subsection \<open>What each function leaves alone\<close>

lemma clearTimers_frame [simp]:
  "sockets (clearTimers s) = sockets s" "wsRef (clearTimers s) = wsRef s"
  "isCleaningUpRef (clearTimers s) = isCleaningUpRef s"
  "isMountedRef (clearTimers s) = isMountedRef s"
  "reconnectTimeoutRef (clearTimers s) = None"
  "reconnectAttemptsRef (clearTimers s) = reconnectAttemptsRef s"
  "clock (clearTimers s) = clock s"
  "length (timers (clearTimers s)) = length (timers s)"
  by (simp_all add: clearTimers_def)

lemma scheduleReconnect_frame [simp]:
  "sockets (scheduleReconnect rnd s) = sockets s" "wsRef (scheduleReconnect rnd s) = wsRef s"
  "isCleaningUpRef (scheduleReconnect rnd s) = isCleaningUpRef s"
  "isMountedRef (scheduleReconnect rnd s) = isMountedRef s"
  "clock (scheduleReconnect rnd s) = clock s"
  by (simp_all add: scheduleReconnect_def Let_def)

lemma startPingInterval_frame [simp]:
  "sockets (startPingInterval s) = sockets s" "wsRef (startPingInterval s) = wsRef s"
  "isCleaningUpRef (startPingInterval s) = isCleaningUpRef s"
  "isMountedRef (startPingInterval s) = isMountedRef s"
  "reconnectTimeoutRef (startPingInterval s) = reconnectTimeoutRef s"
  "reconnectAttemptsRef (startPingInterval s) = reconnectAttemptsRef s"
  "clock (startPingInterval s) = clock s"
  by (simp_all add: startPingInterval_def Let_def)

lemma upd_socket_frame [simp]:
  "sockets (upd_socket w f s) = (sockets s)[w := f (sockets s ! w)]"
  "wsRef (upd_socket w f s) = wsRef s"
  "isCleaningUpRef (upd_socket w f s) = isCleaningUpRef s"
  "isMountedRef (upd_socket w f s) = isMountedRef s"
  "timers (upd_socket w f s) = timers s"
  "reconnectTimeoutRef (upd_socket w f s) = reconnectTimeoutRef s"
  "reconnectAttemptsRef (upd_socket w f s) = reconnectAttemptsRef s"
  "clock (upd_socket w f s) = clock s"
  by (simp_all add: upd_socket_def)

lemma upd_socket_frame2 [simp]:
  "connectionStateRef (upd_socket w f s) = connectionStateRef s"
  "signalHistory (upd_socket w f s) = signalHistory s"
  "data (upd_socket w f s) = data s"
  "length (sockets (upd_socket w f s)) = length (sockets s)"
  by (simp_all add: upd_socket_def)

lemma cleanup_frame [simp]:
  "isCleaningUpRef (cleanup b s) = False"
  "isMountedRef (cleanup b s) = isMountedRef s"
  "timers (cleanup b s) = timers (clearTimers s)"
  "reconnectTimeoutRef (cleanup b s) = None"
  "reconnectAttemptsRef (cleanup b s) = reconnectAttemptsRef s"
  "clock (cleanup b s) = clock s"
  by (simp_all add: cleanup_def Let_def clearTimers_def upd_socket_def split: option.split)

lemma dropSocket_frame [simp]:
  "isCleaningUpRef (dropSocket s) = isCleaningUpRef s"
  "isMountedRef (dropSocket s) = isMountedRef s"
  "timers (dropSocket s) = timers s"
  "reconnectTimeoutRef (dropSocket s) = reconnectTimeoutRef s"
  "reconnectAttemptsRef (dropSocket s) = reconnectAttemptsRef s"
  "clock (dropSocket s) = clock s"
  "wsRef (dropSocket s) = None"
  "length (sockets (dropSocket s)) = length (sockets s)"
  by (simp_all add: dropSocket_def split: option.split)

lemma dispatch_frame [simp]:
  "timers (dispatch m s) = timers s" "reconnectTimeoutRef (dispatch m s) = reconnectTimeoutRef s"
  "sockets (dispatch m s) = sockets s" "wsRef (dispatch m s) = wsRef s"
  "isCleaningUpRef (dispatch m s) = isCleaningUpRef s"
  "isMountedRef (dispatch m s) = isMountedRef s"
  "reconnectAttemptsRef (dispatch m s) = reconnectAttemptsRef s"
  "clock (dispatch m s) = clock s"
  by (simp_all add: dispatch_def Let_def)

lemma onmessage_frame [simp]:
  "timers (onmessage w f s) = timers s" "reconnectTimeoutRef (onmessage w f s) = reconnectTimeoutRef s"
  "sockets (onmessage w f s) = sockets s" "wsRef (onmessage w f s) = wsRef s"
  "isCleaningUpRef (onmessage w f s) = isCleaningUpRef s"
  "isMountedRef (onmessage w f s) = isMountedRef s"
  "reconnectAttemptsRef (onmessage w f s) = reconnectAttemptsRef s"
  "clock (onmessage w f s) = clock s"
  by (simp_all add: onmessage_def split: option.split)

lemma onerror_id [simp]: "onerror w s = s"
  by (simp add: onerror_def)

lemma isLive_simps [simp]:
  "\<not> isLive (detachAndClose k)"
  "\<not> isLive (close_socket a k)"
  "isLive (k\<lparr>handlers := h\<rparr>) = isLive k"
  "isLive (k\<lparr>pings := n\<rparr>) = isLive k"
  "isLive (k\<lparr>readyState := OPEN\<rparr>)"
  "\<not> isLive (k\<lparr>readyState := CLOSED\<rparr>)"
  by (auto simp: isLive_def detachAndClose_def close_socket_def Let_def)

lemma handlers_simps [simp]:
  "handlers (close_socket a k) = handlers k"
  by (simp add: close_socket_def)

text \<open>The three ways through \<^verbatim>\<open>connect\<close>, and the two through the handlers that schedule.\<close>

lemma connect_skip:
  "\<not> isMountedRef s \<or> isCleaningUpRef s \<or> live s \<Longrightarrow> connect throws rnd s = s"
  by (auto simp: connect_def)

lemma connect_throws:
  assumes "isMountedRef s" "\<not> isCleaningUpRef s" "\<not> live s"
  shows "connect True rnd s =
           scheduleReconnect rnd
             ((clearTimers (dropSocket s))\<lparr>connectionStateRef := Disconnected,
                 error := Some MsgFailedToCreate, isConnected := False\<rparr>)"
  using assms by (simp add: connect_def Let_def)

lemma connect_new:
  assumes "isMountedRef s" "\<not> isCleaningUpRef s" "\<not> live s"
  shows "connect False rnd s =
           (clearTimers (dropSocket s))\<lparr>connectionStateRef := Connecting,
              error := Some MsgConnecting,
              sockets := sockets (dropSocket s) @
                 [\<lparr>readyState = CONNECTING, handlers = True, closeCall = None, pings = 0\<rparr>],
              wsRef := Some (length (sockets s)),
              timers := timers (clearTimers (dropSocket s)) @
                 [Some (ConnectionTimer (length (sockets s)), clock s + CONNECTION_TIMEOUT)],
              connectionTimeoutRef := Some (length (timers s))\<rparr>"
  using assms by (simp add: connect_def Let_def)

lemma scheduleReconnect_active:
  assumes "isMountedRef s" "\<not> isCleaningUpRef s"
  shows "scheduleReconnect rnd s =
           s\<lparr>reconnectAttemptsRef := reconnectAttemptsRef s + 1,
             error := Some (MsgReconnectingIn
                (roundSeconds (reconnectDelay (reconnectAttemptsRef s + 1) rnd))),
             timers := clearTimeout (reconnectTimeoutRef s) (timers s) @
                [Some (ReconnectTimer, clock s + reconnectDelay (reconnectAttemptsRef s + 1) rnd)],
             reconnectTimeoutRef := Some (length (timers s))\<rparr>"
  using assms by (simp add: scheduleReconnect_def Let_def)

lemma onclose_current:
  assumes "wsRef s = Some w" "isMountedRef s" "\<not> isCleaningUpRef s"
  shows "onclose w code reason rnd s =
           (if code = 1000 \<and> reason = ''Client cleanup''
            then clearTimers (s\<lparr>connectionStateRef := Disconnected, isConnected := False\<rparr>)
            else scheduleReconnect rnd
                   ((clearTimers (s\<lparr>connectionStateRef := Disconnected, isConnected := False\<rparr>))
                      \<lparr>error := Some MsgConnectionLost\<rparr>))"
  using assms by (simp add: onclose_def Let_def)

lemma connect_flags [simp]:
  "isCleaningUpRef (connect throws rnd s) = isCleaningUpRef s"
  "isMountedRef (connect throws rnd s) = isMountedRef s"
  "clock (connect throws rnd s) = clock s"
proof -
  consider "\<not> isMountedRef s \<or> isCleaningUpRef s \<or> live s"
    | "isMountedRef s" "\<not> isCleaningUpRef s" "\<not> live s" by blast
  then have "isCleaningUpRef (connect throws rnd s) = isCleaningUpRef s \<and>
             isMountedRef (connect throws rnd s) = isMountedRef s \<and>
             clock (connect throws rnd s) = clock s"
  proof cases
    case 1
    then show ?thesis by (simp only: connect_skip)
  next
    case 2
    then show ?thesis
      by (cases throws) (simp_all add: connect_throws connect_new)
  qed
  then show "isCleaningUpRef (connect throws rnd s) = isCleaningUpRef s"
    "isMountedRef (connect throws rnd s) = isMountedRef s"
    "clock (connect throws rnd s) = clock s" by simp_all
qed

lemma connectionTimeoutHandler_flags [simp]:
  "isCleaningUpRef (connectionTimeoutHandler w rnd s) = isCleaningUpRef s"
  "isMountedRef (connectionTimeoutHandler w rnd s) = isMountedRef s"
  by (simp_all add: connectionTimeoutHandler_def Let_def)

lemma onopen_flags [simp]:
  "isCleaningUpRef (onopen w s) = isCleaningUpRef s"
  "isMountedRef (onopen w s) = isMountedRef s"
  by (simp_all add: onopen_def Let_def)

lemma onclose_flags [simp]:
  "isCleaningUpRef (onclose w code reason rnd s) = isCleaningUpRef s"
  "isMountedRef (onclose w code reason rnd s) = isMountedRef s"
  by (simp_all add: onclose_def Let_def)

lemma onclose_sockets [simp]:
  "sockets (onclose w code reason rnd s) = sockets s"
  "wsRef (onclose w code reason rnd s) = wsRef s"
  by (simp_all add: onclose_def Let_def)

lemma pingHandler_flags [simp]:
  "isCleaningUpRef (pingHandler s) = isCleaningUpRef s"
  "isMountedRef (pingHandler s) = isMountedRef s"
  by (simp_all add: pingHandler_def split: option.split)

lemma runTimer_flags [simp]:
  "isCleaningUpRef (runTimer k throws rnd s) = isCleaningUpRef s"
  "isMountedRef (runTimer k throws rnd s) = isMountedRef s"
  by (cases k; simp add: runTimer_def reconnectHandler_def graceHandler_def mountHandler_def)+

lemma fire_flags [simp]:
  "isCleaningUpRef (fire t throws rnd s) = isCleaningUpRef s"
  "isMountedRef (fire t throws rnd s) = isMountedRef s"
  by (simp_all add: fire_def split: option.split)

subsection \<open>The example sessions, computed\<close>

lemma connectingState_eq:
  "connectingState =
     \<lparr> data = None, isConnected = False, error = Some MsgConnecting, signalHistory = JArr [],
       wsRef = Some 0, reconnectTimeoutRef = None, connectionTimeoutRef = Some 1,
       pingIntervalRef = None, reconnectAttemptsRef = 0, isMountedRef = True,
       isCleaningUpRef = False, connectionStateRef = Connecting, connectTimeout = Some 0,
       sockets = [\<lparr>readyState = CONNECTING, handlers = True, closeCall = None, pings = 0\<rparr>],
       timers = [None, Some (ConnectionTimer 0, 10050)], clock = 50 \<rparr>"
  by (simp add: connectingState_def initial_def step_def mountEffect_def fire_def runTimer_def
      mountHandler_def connect_def live_def dropSocket_def clearTimers_def clearTimeout_def
      CONNECTION_TIMEOUT_def)

lemma openState_eq:
  "openState =
     \<lparr> data = None, isConnected = True, error = None, signalHistory = JArr [],
       wsRef = Some 0, reconnectTimeoutRef = None, connectionTimeoutRef = None,
       pingIntervalRef = Some 2, reconnectAttemptsRef = 0, isMountedRef = True,
       isCleaningUpRef = False, connectionStateRef = Connected, connectTimeout = Some 0,
       sockets = [\<lparr>readyState = OPEN, handlers = True, closeCall = None, pings = 0\<rparr>],
       timers = [None, None, Some (PingTimer, 25050)], clock = 50 \<rparr>"
  by (simp add: openState_def connectingState_eq step_def ready_def upd_socket_def onopen_def
      startPingInterval_def clearTimeout_def PING_INTERVAL_def)

lemma openState_run:
  "openState = run [(False, 0, Mount), (False, 0, Advance 50), (False, 0, Fire 0),
                    (False, 0, SockOpen 0)] initial"
  by (simp add: openState_def connectingState_def)

lemma run_append: "run (es @ es') s = run es' (run es s)"
  by (induction es s rule: run.induct) simp_all

subsection \<open>Rounding to double precision\<close>

lemma rne_of_int [simp]: "rne (of_int k) = k"
  by (simp add: rne_def)

lemma rne_lower: "\<lfloor>m\<rfloor> \<le> rne m"
  by (simp add: rne_def Let_def)

lemma rne_upper: "rne m \<le> \<lfloor>m\<rfloor> + 1"
  by (simp add: rne_def Let_def)

lemma rne_mono:
  assumes "a \<le> b"
  shows "rne a \<le> rne b"
proof (cases "\<lfloor>a\<rfloor> = \<lfloor>b\<rfloor>")
  case False
  with assms have "\<lfloor>a\<rfloor> < \<lfloor>b\<rfloor>" using floor_mono [OF assms] by linarith
  then have "rne a \<le> \<lfloor>b\<rfloor>" using rne_upper [of a] by linarith
  then show ?thesis using rne_lower [of b] by linarith
next
  case True
  then have "a - of_int \<lfloor>a\<rfloor> \<le> b - of_int \<lfloor>b\<rfloor>" using assms by simp
  with True show ?thesis by (auto simp: rne_def Let_def)
qed

lemma rne_le: "m \<le> of_int k \<Longrightarrow> rne m \<le> k"
  using rne_mono [of m "of_int k"] by simp

lemma rne_ge: "of_int k \<le> m \<Longrightarrow> k \<le> rne m"
  using rne_mono [of "of_int k" m] by simp

lemma two_powi_pos [simp]: "0 < (2::rat) powi e"
  by (simp add: power_int_def)

lemma two_powi_mono: "a \<le> b \<Longrightarrow> (2::rat) powi a \<le> 2 powi b"
  by (rule power_int_increasing) simp_all

lemma two_powi_less: "a < b \<Longrightarrow> (2::rat) powi a < 2 powi b"
  by (rule power_int_strict_increasing) simp_all

lemma two_powi_less_cancel: "(2::rat) powi a < 2 powi b \<Longrightarrow> a < b"
  using two_powi_mono [of b a] by (cases "a < b") auto

lemma two_powi_add: "(2::rat) powi (a + b) = 2 powi a * 2 powi b"
  by (simp add: power_int_add)

lemma two_powi_diff: "(2::rat) powi (a - b) = 2 powi a / 2 powi b"
  by (simp add: power_int_diff)

lemma expo_bounds:
  assumes "0 < x"
  shows "2 powi (expo x) \<le> x" and "x < 2 powi (expo x + 1)"
proof -
  obtain p q where pq: "quotient_of x = (p, q)" by (cases "quotient_of x")
  then have q: "0 < q" and x: "x = of_int p / of_int q"
    using quotient_of_denom_pos [OF pq] quotient_of_div [OF pq] by simp_all
  with assms have p: "0 < p" by (simp add: zero_less_divide_iff)
  let ?a = "bitlen p - bitlen q"
  from bitlen_bounds [OF p] have bp: "2 ^ nat (bitlen p - 1) \<le> p" "p < 2 ^ nat (bitlen p)" by simp_all
  from bitlen_bounds [OF q] have bq: "2 ^ nat (bitlen q - 1) \<le> q" "q < 2 ^ nat (bitlen q)" by simp_all
  have p1: "1 \<le> bitlen p" using p by (auto simp: bitlen_alt_def)
  have q1: "1 \<le> bitlen q" using q by (auto simp: bitlen_alt_def)
  have P: "(2::rat) powi (bitlen p - 1) \<le> of_int p" "(of_int p :: rat) < 2 powi (bitlen p)"
  proof -
    have "(of_int (2 ^ nat (bitlen p - 1)) :: rat) \<le> of_int p" using bp(1) by (simp only: of_int_le_iff)
    then show "(2::rat) powi (bitlen p - 1) \<le> of_int p" using p1 by (simp add: power_int_def)
    have "(of_int p :: rat) < of_int (2 ^ nat (bitlen p))" using bp(2) by (simp only: of_int_less_iff)
    then show "(of_int p :: rat) < 2 powi (bitlen p)" using p1 by (simp add: power_int_def)
  qed
  have Q: "(2::rat) powi (bitlen q - 1) \<le> of_int q" "(of_int q :: rat) < 2 powi (bitlen q)"
  proof -
    have "(of_int (2 ^ nat (bitlen q - 1)) :: rat) \<le> of_int q" using bq(1) by (simp only: of_int_le_iff)
    then show "(2::rat) powi (bitlen q - 1) \<le> of_int q" using q1 by (simp add: power_int_def)
    have "(of_int q :: rat) < of_int (2 ^ nat (bitlen q))" using bq(2) by (simp only: of_int_less_iff)
    then show "(of_int q :: rat) < 2 powi (bitlen q)" using q1 by (simp add: power_int_def)
  qed
  have qpos: "(0::rat) < of_int q" using q by simp
  have lo: "2 powi (?a - 1) \<le> x"
  proof -
    have "2 powi (?a - 1) * of_int q \<le> 2 powi (?a - 1) * (2::rat) powi (bitlen q)"
      using Q(2) by (intro mult_left_mono) simp_all
    also have "\<dots> = 2 powi (bitlen p - 1)"
      by (simp add: two_powi_add [symmetric])
    also have "\<dots> \<le> of_int p" by (rule P(1))
    finally show ?thesis unfolding x using qpos by (simp add: pos_le_divide_eq)
  qed
  have hi: "x < 2 powi (?a + 1)"
  proof -
    have "of_int p < (2::rat) powi (bitlen p)" by (rule P(2))
    also have "\<dots> = 2 powi (?a + 1) * 2 powi (bitlen q - 1)"
      by (simp add: two_powi_add [symmetric])
    also have "\<dots> \<le> 2 powi (?a + 1) * of_int q"
      using Q(1) by (intro mult_left_mono) simp_all
    finally show ?thesis unfolding x using qpos by (simp add: pos_divide_less_eq)
  qed
  have e: "expo x = (if 2 powi ?a \<le> x then ?a else ?a - 1)"
    by (simp add: expo_def pq Let_def)
  show "2 powi (expo x) \<le> x" using lo by (simp add: e)
  show "x < 2 powi (expo x + 1)" using hi by (auto simp: e not_le)
qed

lemma expo_unique:
  assumes "2 powi e \<le> x" "x < 2 powi (e + 1)"
  shows "expo x = e"
proof -
  have pos: "0 < x" using assms(1) two_powi_pos [of e] by linarith
  from expo_bounds [OF pos] assms
  have "(2::rat) powi e < 2 powi (expo x + 1)" "(2::rat) powi (expo x) < 2 powi (e + 1)"
    by linarith+
  then have "e < expo x + 1" "expo x < e + 1" by (auto dest: two_powi_less_cancel)
  then show ?thesis by simp
qed

lemma expo_mono:
  assumes "0 < x" "x \<le> y"
  shows "expo x \<le> expo y"
proof -
  have "0 < y" using assms by simp
  from expo_bounds(1) [OF assms(1)] expo_bounds(2) [OF this] assms(2)
  have "(2::rat) powi (expo x) < 2 powi (expo y + 1)" by linarith
  then have "expo x < expo y + 1" by (rule two_powi_less_cancel)
  then show ?thesis by simp
qed

lemma ulp_pos [simp]: "0 < ulp x"
  by (simp add: ulp_def)

lemma ulp_nonneg [simp]: "0 \<le> ulp x"
  by (simp add: ulp_def less_imp_le)

lemma fl_nonneg_def: "0 \<le> x \<Longrightarrow> fl x = of_int (rne (x / ulp x)) * ulp x"
  by (simp add: fl_def)

lemma fl_zero [simp]: "fl 0 = 0"
  by (simp add: fl_def rne_def)

lemma fl_nonneg:
  assumes "0 \<le> x"
  shows "0 \<le> fl x"
proof -
  have "(of_int 0 :: rat) \<le> x / ulp x" using assms by (simp add: divide_nonneg_pos)
  then have "0 \<le> rne (x / ulp x)" by (rule rne_ge)
  then show ?thesis using assms by (simp add: fl_nonneg_def mult_nonneg_nonneg)
qed

lemma ulp_eval:
  assumes "2 powi e \<le> x" "x < 2 powi (e + 1)" "- 1022 \<le> e"
  shows "ulp x = 2 powi (e - 52)"
  using expo_unique [OF assms(1,2)] assms(3) by (simp add: ulp_def)

lemma fl_eval:
  assumes "2 powi e \<le> x" "x < 2 powi (e + 1)" "- 1022 \<le> e"
  shows "fl x = of_int (rne (x / 2 powi (e - 52))) * 2 powi (e - 52)"
proof -
  have "0 \<le> x" using assms(1) two_powi_pos [of e] by linarith
  then show ?thesis by (simp add: fl_nonneg_def ulp_eval [OF assms])
qed

lemma fl_exact:
  assumes "0 \<le> k" "k < 2 ^ 53" "- 1074 \<le> j"
  shows "fl (of_int k * 2 powi j) = of_int k * 2 powi j"
proof (cases "k = 0")
  case True
  then show ?thesis by simp
next
  case False
  let ?x = "of_int k * (2::rat) powi j"
  have k1: "(1::rat) \<le> of_int k" using assms(1) False by simp
  have pos: "0 < ?x" using k1 by (simp add: zero_less_mult_iff)
  have "?x < of_int (2 ^ 53) * 2 powi j"
    using assms(2) by (intro mult_strict_right_mono) (simp_all only: of_int_less_iff two_powi_pos)
  also have "\<dots> = 2 powi (j + 53)" by (simp add: two_powi_add)
  finally have "(2::rat) powi (expo ?x) < 2 powi (j + 53)"
    using expo_bounds(1) [OF pos] by linarith
  then have e: "expo ?x < j + 53" by (rule two_powi_less_cancel)
  define E where "E = max (expo ?x) (- 1022)"
  have E: "E - 52 \<le> j" using e assms(3) by (simp add: E_def)
  have u: "ulp ?x = 2 powi (E - 52)" by (simp add: ulp_def E_def)
  have "?x / 2 powi (E - 52) = of_int k * 2 powi (j - (E - 52))"
    by (simp add: two_powi_diff)
  also have "\<dots> = of_int (k * 2 ^ nat (j - (E - 52)))"
    using E by (simp add: power_int_def)
  finally have "rne (?x / 2 powi (E - 52)) = k * 2 ^ nat (j - (E - 52))"
    by (simp only: rne_of_int)
  then have "fl ?x = of_int (k * 2 ^ nat (j - (E - 52))) * 2 powi (E - 52)"
    using pos by (simp add: fl_nonneg_def u)
  also have "\<dots> = of_int k * (2 powi (j - (E - 52)) * 2 powi (E - 52))"
    using E by (simp add: power_int_def)
  also have "\<dots> = ?x" by (simp add: two_powi_add [symmetric])
  finally show ?thesis .
qed

lemma fl_int: "0 \<le> k \<Longrightarrow> k < 2 ^ 53 \<Longrightarrow> fl (of_int k) = of_int k"
  using fl_exact [of k 0] by simp

lemma fl_mono:
  assumes "0 \<le> x" "x \<le> y"
  shows "fl x \<le> fl y"
proof (cases "x = 0")
  case True
  then show ?thesis using assms fl_nonneg [of y] by simp
next
  case False
  with assms have px: "0 < x" and py: "0 < y" by simp_all
  define Ex where "Ex = max (expo x) (- 1022)"
  define Ey where "Ey = max (expo y) (- 1022)"
  have ux: "ulp x = 2 powi (Ex - 52)" and uy: "ulp y = 2 powi (Ey - 52)"
    by (simp_all add: ulp_def Ex_def Ey_def)
  have le: "Ex \<le> Ey" using expo_mono [OF px assms(2)] by (simp add: Ex_def Ey_def)
  show ?thesis
  proof (cases "Ex = Ey")
    case True
    then have "ulp x = ulp y" by (simp add: ux uy)
    moreover have "rne (x / ulp y) \<le> rne (y / ulp y)"
      using assms(2) by (intro rne_mono divide_right_mono) simp_all
    ultimately show ?thesis using assms
      by (simp add: fl_nonneg_def mult_right_mono)
  next
    case False
    with le have lt: "Ex < Ey" by simp
    then have ey: "Ey = expo y" by (auto simp: Ex_def Ey_def)
    have "x < 2 powi (expo x + 1)" by (rule expo_bounds(2) [OF px])
    also have "\<dots> \<le> 2 powi (Ex + 1)" by (rule two_powi_mono) (simp add: Ex_def)
    finally have "x / ulp x \<le> 2 powi (Ex + 1) / 2 powi (Ex - 52)"
      unfolding ux by (intro divide_right_mono) simp_all
    also have "\<dots> = of_int (2 ^ 53)" by (simp add: two_powi_diff [symmetric])
    finally have "rne (x / ulp x) \<le> 2 ^ 53" by (rule rne_le)
    then have "(of_int (rne (x / ulp x)) :: rat) \<le> of_int (2 ^ 53)" by (simp only: of_int_le_iff)
    then have "fl x \<le> of_int (2 ^ 53) * 2 powi (Ex - 52)"
      using px by (simp add: fl_nonneg_def ux mult_right_mono)
    also have "\<dots> = 2 powi (Ex + 1)"
      using two_powi_add [of 53 "Ex - 52"] by (simp add: add.commute)
    also have "\<dots> \<le> 2 powi Ey" using lt by (intro two_powi_mono) simp
    finally have a: "fl x \<le> 2 powi Ey" .
    have "(2::rat) powi Ey \<le> y" unfolding ey by (rule expo_bounds(1) [OF py])
    then have "2 powi Ey / 2 powi (Ey - 52) \<le> y / ulp y"
      unfolding uy by (intro divide_right_mono) simp_all
    moreover have "(2::rat) powi Ey / 2 powi (Ey - 52) = of_int (2 ^ 52)"
      by (simp add: two_powi_diff [symmetric])
    ultimately have "of_int (2 ^ 52) \<le> y / ulp y" by simp
    then have "2 ^ 52 \<le> rne (y / ulp y)" by (rule rne_ge)
    then have "(of_int (2 ^ 52) :: rat) \<le> of_int (rne (y / ulp y))" by (simp only: of_int_le_iff)
    then have "of_int (2 ^ 52) * 2 powi (Ey - 52) \<le> fl y"
      using py by (simp add: fl_nonneg_def uy mult_right_mono)
    moreover have "of_int (2 ^ 52) * (2::rat) powi (Ey - 52) = 2 powi Ey"
      using two_powi_add [of 52 "Ey - 52"] by (simp add: add.commute)
    ultimately have "2 powi Ey \<le> fl y" by simp
    with a show ?thesis by linarith
  qed
qed

lemma fl_quarters:
  assumes "0 \<le> m" "m < 2 ^ 53"
  shows "fl (of_int m / 4) = of_int m / 4"
  using fl_exact [OF assms, of "- 2"] by simp

subsection \<open>The backoff function\<close>

lemma pow_exact:
  assumes "k \<le> 7"
  shows "fl ((3 / 2) ^ k) = (3 / 2) ^ k"
proof -
  have "(3::int) ^ 7 < 2 ^ 53" by simp
  moreover have "(3::int) ^ k \<le> 3 ^ 7" by (rule power_increasing) (use assms in simp_all)
  ultimately have b: "(3::int) ^ k < 2 ^ 53" by (rule le_less_trans [rotated])
  have a: "0 \<le> (3::int) ^ k" by simp
  have c: "- 1074 \<le> - int k" using assms by simp
  have f: "fl (of_int (3 ^ k) * 2 powi (- int k)) = of_int (3 ^ k) * 2 powi (- int k)"
    by (rule fl_exact [OF a b c])
  have eq: "(of_int (3 ^ k) :: rat) * 2 powi (- int k) = (3 / 2) ^ k"
    by (simp add: power_int_minus_divide power_divide)
  show ?thesis using f unfolding eq .
qed

lemma scaled_exact:
  assumes "k \<le> 7"
  shows "fl (2000 * (3 / 2) ^ k) = 2000 * (3 / 2) ^ k"
proof -
  have "2000 * (3::int) ^ 7 < 2 ^ 53" by simp
  moreover have "(3::int) ^ k \<le> 3 ^ 7" by (rule power_increasing) (use assms in simp_all)
  then have "2000 * (3::int) ^ k \<le> 2000 * 3 ^ 7" by (intro mult_left_mono) simp_all
  ultimately have b: "2000 * (3::int) ^ k < 2 ^ 53" by (rule le_less_trans [rotated])
  have a: "0 \<le> 2000 * (3::int) ^ k" by simp
  have c: "- 1074 \<le> - int k" using assms by simp
  have f: "fl (of_int (2000 * 3 ^ k) * 2 powi (- int k)) = of_int (2000 * 3 ^ k) * 2 powi (- int k)"
    by (rule fl_exact [OF a b c])
  have eq: "(of_int (2000 * 3 ^ k) :: rat) * 2 powi (- int k) = 2000 * (3 / 2) ^ k"
    by (simp add: power_int_minus_divide power_divide)
  show ?thesis using f unfolding eq .
qed

lemma baseDelay_exact: "baseDelay n = min (2000 * (3 / 2) ^ (n - 1)) 30000"
proof (cases "n - 1 \<le> 7")
  case True
  then show ?thesis
    by (simp add: baseDelay_def RECONNECT_DELAY_def MAX_RECONNECT_DELAY_def pow_exact scaled_exact)
next
  case False
  then have k: "7 \<le> n - 1" by simp
  have p: "(3 / 2 :: rat) ^ 7 \<le> (3 / 2) ^ (n - 1)"
    by (rule power_increasing) (use k in simp_all)
  then have "fl ((3 / 2) ^ 7) \<le> fl ((3 / 2) ^ (n - 1))" by (intro fl_mono) simp_all
  then have "(3 / 2 :: rat) ^ 7 \<le> fl ((3 / 2) ^ (n - 1))" by (simp add: pow_exact)
  then have "2000 * (3 / 2 :: rat) ^ 7 \<le> 2000 * fl ((3 / 2) ^ (n - 1))" by simp
  then have "fl (2000 * (3 / 2) ^ 7) \<le> fl (2000 * fl ((3 / 2) ^ (n - 1)))"
    by (intro fl_mono) simp_all
  then have "2000 * (3 / 2 :: rat) ^ 7 \<le> fl (2000 * fl ((3 / 2) ^ (n - 1)))"
    by (simp add: scaled_exact)
  moreover have "(30000 :: rat) \<le> 2000 * (3 / 2) ^ 7" by (simp add: power_divide)
  ultimately have a: "30000 \<le> fl (2000 * fl ((3 / 2) ^ (n - 1)))" by linarith
  have b: "(30000 :: rat) \<le> 2000 * (3 / 2) ^ (n - 1)"
    using p \<open>(30000 :: rat) \<le> 2000 * (3 / 2) ^ 7\<close> by linarith
  show ?thesis using a b
    by (simp add: baseDelay_def RECONNECT_DELAY_def MAX_RECONNECT_DELAY_def min_def)
qed

lemma baseDelay_quarters: "\<exists>m. 0 \<le> m \<and> m \<le> 120000 \<and> baseDelay n = of_int m / 4 \<and> 8000 \<le> m"
proof (cases "n - 1 \<le> 6")
  case False
  then have "7 \<le> n - 1" by simp
  then have "(3 / 2 :: rat) ^ 7 \<le> (3 / 2) ^ (n - 1)" by (intro power_increasing) simp_all
  moreover have "(30000 :: rat) \<le> 2000 * (3 / 2) ^ 7" by (simp add: power_divide)
  ultimately have "(30000 :: rat) \<le> 2000 * (3 / 2) ^ (n - 1)" by linarith
  then have "baseDelay n = of_int 120000 / 4" by (simp add: baseDelay_exact min_def)
  then show ?thesis by (intro exI [of _ 120000]) simp
next
  case True
  then have "n - 1 = 0 \<or> n - 1 = 1 \<or> n - 1 = 2 \<or> n - 1 = 3 \<or> n - 1 = 4 \<or> n - 1 = 5 \<or> n - 1 = 6"
    by arith
  then show ?thesis
  proof (elim disjE)
    assume "n - 1 = 0"
    then have "baseDelay n = of_int 8000 / 4" by (simp add: baseDelay_exact)
    then show ?thesis by (intro exI [of _ 8000]) simp
  next
    assume "n - 1 = 1"
    then have "baseDelay n = of_int 12000 / 4" by (simp add: baseDelay_exact)
    then show ?thesis by (intro exI [of _ 12000]) simp
  next
    assume "n - 1 = 2"
    then have "baseDelay n = of_int 18000 / 4" by (simp add: baseDelay_exact power_divide)
    then show ?thesis by (intro exI [of _ 18000]) simp
  next
    assume "n - 1 = 3"
    then have "baseDelay n = of_int 27000 / 4" by (simp add: baseDelay_exact power_divide)
    then show ?thesis by (intro exI [of _ 27000]) simp
  next
    assume "n - 1 = 4"
    then have "baseDelay n = of_int 40500 / 4" by (simp add: baseDelay_exact power_divide)
    then show ?thesis by (intro exI [of _ 40500]) simp
  next
    assume "n - 1 = 5"
    then have "baseDelay n = of_int 60750 / 4" by (simp add: baseDelay_exact power_divide)
    then show ?thesis by (intro exI [of _ 60750]) simp
  next
    assume "n - 1 = 6"
    then have "baseDelay n = of_int 91125 / 4" by (simp add: baseDelay_exact power_divide)
    then show ?thesis by (intro exI [of _ 91125]) simp
  qed
qed

lemma random_max:
  assumes "randomValue rnd"
  shows "rnd \<le> 1 - 1 / 2 ^ 53"
proof (rule ccontr)
  assume "\<not> rnd \<le> 1 - 1 / 2 ^ 53"
  then have lo: "1 - 1 / 2 ^ 53 < rnd" by simp
  from assms have hi: "rnd < 1" and fx: "fl rnd = rnd" by (simp_all add: randomValue_def)
  define m where "m = rne (rnd / 2 powi (- 1 - 52))"
  have "2 powi (- 1) \<le> rnd" using lo by (simp add: power_int_minus)
  moreover have "rnd < 2 powi (- 1 + 1)" using hi by simp
  ultimately have "fl rnd = of_int m * 2 powi (- 1 - 52)"
    unfolding m_def by (rule fl_eval) simp
  with fx have "rnd = of_int m * 2 powi (- 53)" by simp
  then have r: "rnd = of_int m / 2 ^ 53" by (simp add: power_int_minus_divide)
  have "(of_int (2 ^ 53 - 1) :: rat) < of_int m" using lo unfolding r by (simp add: field_simps)
  then have a: "2 ^ 53 - 1 < m" by (simp only: of_int_less_iff)
  have "(of_int m :: rat) < of_int (2 ^ 53)" using hi unfolding r by (simp add: field_simps)
  then have "m < 2 ^ 53" by (simp only: of_int_less_iff)
  with a show False by simp
qed

lemma rne_down: "of_int f \<le> m \<Longrightarrow> m - of_int f < 1 / 2 \<Longrightarrow> rne m = f"
proof -
  assume a: "of_int f \<le> m" "m - of_int f < 1 / 2"
  then have "\<lfloor>m\<rfloor> = f" by (intro floor_unique) simp_all
  with a show ?thesis by (simp add: rne_def)
qed

lemma rne_up: "of_int f \<le> m \<Longrightarrow> 1 / 2 < m - of_int f \<Longrightarrow> m < of_int f + 1 \<Longrightarrow> rne m = f + 1"
proof -
  assume a: "of_int f \<le> m" "1 / 2 < m - of_int f" "m < of_int f + 1"
  then have "\<lfloor>m\<rfloor> = f" by (intro floor_unique) simp_all
  with a show ?thesis by (simp add: rne_def)
qed

lemma fl_half: "fl (1 / 2) = 1 / 2"
  using fl_exact [of 1 "- 1"] by (simp add: power_int_minus_divide)

lemma fl_below_one: "fl (1 - 1 / 2 ^ 53) = 1 - 1 / 2 ^ 53"
proof -
  have "fl (of_int (2 ^ 53 - 1) * 2 powi (- 53)) = of_int (2 ^ 53 - 1) * 2 powi (- 53)"
    by (rule fl_exact) simp_all
  moreover have "(of_int (2 ^ 53 - 1) :: rat) * 2 powi (- 53) = 1 - 1 / 2 ^ 53"
    by (simp add: power_int_minus_divide field_simps)
  ultimately show ?thesis by (simp only:)
qed

lemma randomValue_examples:
  "randomValue 0" "randomValue (1 / 2)" "randomValue (1 - 1 / 2 ^ 53)"
proof -
  show "randomValue 0" by (simp add: randomValue_def)
  show "randomValue (1 / 2)" by (simp add: randomValue_def fl_half)
  have "(0::rat) \<le> 1 - 1 / 2 ^ 53" "(1::rat) - 1 / 2 ^ 53 < 1" by simp_all
  with fl_below_one show "randomValue (1 - 1 / 2 ^ 53)" unfolding randomValue_def by blast
qed

lemma jitter_top: "fl ((1 - 1 / 2 ^ 53) * 1000) = 1000 - 1 / 2 ^ 43"
proof -
  let ?x = "(1 - 1 / 2 ^ 53) * 1000 :: rat"
  have "fl ?x = of_int (rne (?x / 2 powi (9 - 52))) * 2 powi (9 - 52)"
    by (rule fl_eval) simp_all
  moreover have "rne (?x / 2 powi (9 - 52)) = 1000 * 2 ^ 43 - 1"
    by (rule rne_down) (simp_all add: power_int_minus_divide)
  ultimately show ?thesis by (simp add: power_int_minus_divide)
qed

lemma jitter_bounds:
  assumes "randomValue rnd"
  shows "0 \<le> fl (rnd * 1000)" and "fl (rnd * 1000) \<le> 1000 - 1 / 2 ^ 43"
proof -
  from assms have r: "0 \<le> rnd" by (simp add: randomValue_def)
  then show "0 \<le> fl (rnd * 1000)" by (intro fl_nonneg) simp
  have "rnd * 1000 \<le> (1 - 1 / 2 ^ 53) * 1000"
    using random_max [OF assms] by (intro mult_right_mono) simp_all
  then have "fl (rnd * 1000) \<le> fl ((1 - 1 / 2 ^ 53) * 1000)"
    using r by (intro fl_mono) simp_all
  then show "fl (rnd * 1000) \<le> 1000 - 1 / 2 ^ 43" by (simp only: jitter_top)
qed

lemma sum_bounds:
  assumes "randomValue rnd"
  shows "baseDelay n \<le> fl (baseDelay n + fl (rnd * 1000))"
    and "fl (baseDelay n + fl (rnd * 1000)) \<le> baseDelay n + 1000"
proof -
  obtain m where m: "0 \<le> m" "m \<le> 120000" "baseDelay n = of_int m / 4"
    using baseDelay_quarters [of n] by blast
  define j where "j = fl (rnd * 1000)"
  have j: "0 \<le> j" "j \<le> 1000" using jitter_bounds [OF assms] by (simp_all add: j_def)
  have b0: "0 \<le> baseDelay n" using m by simp
  have "m < 2 ^ 53" using m(2) by simp
  then have e1: "fl (baseDelay n) = baseDelay n" unfolding m(3) using m(1) by (intro fl_quarters)
  have "fl (of_int (m + 4000) / 4) = (of_int (m + 4000) :: rat) / 4"
    using m by (intro fl_quarters) simp_all
  moreover have "(of_int (m + 4000) :: rat) / 4 = baseDelay n + 1000" by (simp add: m(3))
  ultimately have e2: "fl (baseDelay n + 1000) = baseDelay n + 1000" by (simp only:)
  have "fl (baseDelay n) \<le> fl (baseDelay n + j)" using b0 j by (intro fl_mono) simp_all
  then show "baseDelay n \<le> fl (baseDelay n + fl (rnd * 1000))" by (simp add: e1 j_def)
  have "fl (baseDelay n + j) \<le> fl (baseDelay n + 1000)" using b0 j by (intro fl_mono) simp_all
  then show "fl (baseDelay n + fl (rnd * 1000)) \<le> baseDelay n + 1000" by (simp add: e2 j_def)
qed

lemma reconnectDelay_bounds:
  assumes "randomValue rnd"
  shows "\<lfloor>baseDelay n\<rfloor> \<le> int (reconnectDelay n rnd)"
    and "baseDelay n - 1 < of_nat (reconnectDelay n rnd)"
    and "of_nat (reconnectDelay n rnd) \<le> baseDelay n + 1000"
proof -
  let ?s = "fl (baseDelay n + fl (rnd * 1000))"
  note b = sum_bounds [OF assms, of n]
  have "0 \<le> baseDelay n" using baseDelay_quarters [of n] by auto
  with b(1) have "0 \<le> ?s" by simp
  then have "0 \<le> \<lfloor>?s\<rfloor>" by simp
  then have i: "int (reconnectDelay n rnd) = \<lfloor>?s\<rfloor>" by (simp add: reconnectDelay_def)
  then have q: "(of_nat (reconnectDelay n rnd) :: rat) = of_int \<lfloor>?s\<rfloor>"
    by (metis of_int_of_nat_eq)
  show "\<lfloor>baseDelay n\<rfloor> \<le> int (reconnectDelay n rnd)"
    unfolding i using b(1) by (rule floor_mono)
  have "?s - 1 < of_int \<lfloor>?s\<rfloor>" "(of_int \<lfloor>?s\<rfloor> :: rat) \<le> ?s" by linarith+
  with b show "baseDelay n - 1 < of_nat (reconnectDelay n rnd)"
    and "of_nat (reconnectDelay n rnd) \<le> baseDelay n + 1000"
    unfolding q by linarith+
qed

lemma baseDelay_1: "baseDelay (Suc 0) = 2000"
  by (simp add: baseDelay_exact)

lemma baseDelay_2: "baseDelay (Suc (Suc 0)) = 3000"
  by (simp add: baseDelay_exact)

lemma baseDelay_6: "baseDelay 6 = 30375 / 2"
  by (simp add: baseDelay_exact power_divide)

lemma baseDelay_le_cap: "baseDelay n \<le> 30000"
  by (simp add: baseDelay_exact)

lemma baseDelay_mono: "baseDelay n \<le> baseDelay (Suc n)"
proof -
  have "(3 / 2 :: rat) ^ (n - 1) \<le> (3 / 2) ^ (Suc n - 1)"
    by (rule power_increasing) simp_all
  then show ?thesis
    unfolding baseDelay_exact by (intro min.mono mult_left_mono) simp_all
qed

lemma reconnectDelay_first:
  assumes "randomValue rnd"
  shows "2000 \<le> reconnectDelay (Suc 0) rnd \<and> reconnectDelay (Suc 0) rnd \<le> 3000"
proof -
  from reconnectDelay_bounds(1,3) [OF assms, of "Suc 0"]
  have "(2000::int) \<le> int (reconnectDelay (Suc 0) rnd)"
    and "(of_nat (reconnectDelay (Suc 0) rnd) :: rat) \<le> of_nat 3000"
    by (simp_all add: baseDelay_1)
  then show ?thesis by (simp only: of_nat_le_iff) simp
qed

lemma reconnectDelay_second:
  assumes "randomValue rnd"
  shows "3000 \<le> reconnectDelay (Suc (Suc 0)) rnd \<and> reconnectDelay (Suc (Suc 0)) rnd \<le> 4000"
proof -
  from reconnectDelay_bounds(1,3) [OF assms, of "Suc (Suc 0)"]
  have "(3000::int) \<le> int (reconnectDelay (Suc (Suc 0)) rnd)"
    and "(of_nat (reconnectDelay (Suc (Suc 0)) rnd) :: rat) \<le> of_nat 4000"
    by (simp_all add: baseDelay_2)
  then show ?thesis by (simp only: of_nat_le_iff) simp
qed

lemma reconnectDelay_zero: "reconnectDelay n 0 = nat \<lfloor>baseDelay n\<rfloor>"
proof -
  obtain m where m: "0 \<le> m" "m \<le> 120000" "baseDelay n = of_int m / 4"
    using baseDelay_quarters [of n] by blast
  have "m < 2 ^ 53" using m(2) by simp
  then have "fl (baseDelay n) = baseDelay n" unfolding m(3) using m(1) by (intro fl_quarters)
  then show ?thesis by (simp add: reconnectDelay_def)
qed

lemma reconnectDelay_mono: "reconnectDelay n 0 \<le> reconnectDelay (Suc n) 0"
  unfolding reconnectDelay_zero using baseDelay_mono [of n]
  by (intro nat_mono floor_mono)

lemma reconnectDelay_half:
  "reconnectDelay (Suc 0) (1 / 2) = 2500" "reconnectDelay (Suc (Suc 0)) (1 / 2) = 3500"
proof -
  have a: "fl 500 = 500" using fl_int [of 500] by simp
  have b: "fl 2500 = 2500" using fl_int [of 2500] by simp
  have c: "fl 3500 = 3500" using fl_int [of 3500] by simp
  show "reconnectDelay (Suc 0) (1 / 2) = 2500"
    by (simp add: reconnectDelay_def baseDelay_1 a b)
  show "reconnectDelay (Suc (Suc 0)) (1 / 2) = 3500"
    by (simp add: reconnectDelay_def baseDelay_2 a c)
qed

lemma reconnectDelay_sixth: "reconnectDelay 6 0 = 15187"
proof -
  have "\<lfloor>(30375::rat) / 2\<rfloor> = 15187" by (simp add: floor_eq_iff)
  then show ?thesis by (simp add: reconnectDelay_zero baseDelay_6)
qed

lemma reconnectDelay_top: "reconnectDelay (Suc 0) (1 - 1 / 2 ^ 53) = 3000"
proof -
  let ?x = "3000 - 1 / 2 ^ 43 :: rat"
  have "fl ?x = of_int (rne (?x / 2 powi (11 - 52))) * 2 powi (11 - 52)"
    by (rule fl_eval) simp_all
  moreover have "rne (?x / 2 powi (11 - 52)) = (3000 * 2 ^ 41 - 1) + 1"
    by (rule rne_up) (simp_all add: power_int_minus_divide)
  ultimately have f: "fl ?x = 3000" by (simp add: power_int_minus_divide)
  have s: "(2000::rat) + (1000 - 1 / 2 ^ 43) = ?x" by simp
  have "reconnectDelay (Suc 0) (1 - 1 / 2 ^ 53) =
        nat \<lfloor>fl (baseDelay (Suc 0) + fl ((1 - 1 / 2 ^ 53) * 1000))\<rfloor>"
    by (simp only: reconnectDelay_def)
  also have "\<dots> = nat \<lfloor>fl ?x\<rfloor>" by (simp only: baseDelay_1 jitter_top s)
  also have "\<dots> = 3000" by (simp only: f) simp
  finally show ?thesis .
qed

lemma rne_tie: "m = of_int f + 1 / 2 \<Longrightarrow> odd f \<Longrightarrow> rne m = f + 1"
proof -
  assume a: "m = of_int f + 1 / 2" "odd f"
  then have "\<lfloor>m\<rfloor> = f" by (intro floor_unique) simp_all
  with a show ?thesis by (simp add: rne_def)
qed

lemma fl_below_one_52: "fl (1 - 1 / 2 ^ 52) = 1 - 1 / 2 ^ 52"
proof -
  have "fl (of_int (2 ^ 52 - 1) * 2 powi (- 52)) = of_int (2 ^ 52 - 1) * 2 powi (- 52)"
    by (rule fl_exact) simp_all
  moreover have "(of_int (2 ^ 52 - 1) :: rat) * 2 powi (- 52) = 1 - 1 / 2 ^ 52"
    by (simp add: power_int_minus_divide field_simps)
  ultimately show ?thesis by (simp only:)
qed

lemma randomValue_top_52: "randomValue (1 - 1 / 2 ^ 52)"
proof -
  have "(0::rat) \<le> 1 - 1 / 2 ^ 52" "(1::rat) - 1 / 2 ^ 52 < 1" by simp_all
  with fl_below_one_52 show ?thesis unfolding randomValue_def by blast
qed

lemma jitter_top_52: "fl ((1 - 1 / 2 ^ 52) * 1000) = 1000 - 1 / 2 ^ 42"
proof -
  let ?x = "(1 - 1 / 2 ^ 52) * 1000 :: rat"
  have "fl ?x = of_int (rne (?x / 2 powi (9 - 52))) * 2 powi (9 - 52)"
    by (rule fl_eval) simp_all
  moreover have "rne (?x / 2 powi (9 - 52)) = 1000 * 2 ^ 43 - 2"
    by (rule rne_down) (simp_all add: power_int_minus_divide)
  ultimately show ?thesis by (simp add: power_int_minus_divide)
qed

lemma sum_top: "fl (3000 - 1 / 2 ^ 43) = 3000" "fl (4000 - 1 / 2 ^ 43) = 4000"
proof -
  have "fl x = of_int (rne (x / 2 powi (11 - 52))) * 2 powi (11 - 52)"
    if "2048 \<le> x" "x < 4096" for x :: rat
    by (rule fl_eval) (use that in simp_all)
  note e = this
  have "rne ((3000 - 1 / 2 ^ 43) / 2 powi (11 - 52)) = (3000 * 2 ^ 41 - 1) + 1"
    by (rule rne_up) (simp_all add: power_int_minus_divide)
  then show "fl (3000 - 1 / 2 ^ 43) = 3000"
    by (subst e) (simp_all add: power_int_minus_divide)
  have "rne ((4000 - 1 / 2 ^ 43) / 2 powi (11 - 52)) = (4000 * 2 ^ 41 - 1) + 1"
    by (rule rne_up) (simp_all add: power_int_minus_divide)
  then show "fl (4000 - 1 / 2 ^ 43) = 4000"
    by (subst e) (simp_all add: power_int_minus_divide)
qed

lemma sum_top_52: "fl (3000 - 1 / 2 ^ 42) = 3000"
proof -
  let ?x = "3000 - 1 / 2 ^ 42 :: rat"
  have "fl ?x = of_int (rne (?x / 2 powi (11 - 52))) * 2 powi (11 - 52)"
    by (rule fl_eval) simp_all
  moreover have "rne (?x / 2 powi (11 - 52)) = (3000 * 2 ^ 41 - 1) + 1"
    by (rule rne_tie) (simp_all add: power_int_minus_divide)
  ultimately show ?thesis by (simp add: power_int_minus_divide)
qed

lemma reconnectDelay_top_52:
  "reconnectDelay (Suc 0) (1 - 1 / 2 ^ 52) = 3000"
  "reconnectDelay (Suc (Suc 0)) (1 - 1 / 2 ^ 53) = 4000"
proof -
  have s: "(2000::rat) + (1000 - 1 / 2 ^ 42) = 3000 - 1 / 2 ^ 42" by simp
  have "reconnectDelay (Suc 0) (1 - 1 / 2 ^ 52) =
        nat \<lfloor>fl (baseDelay (Suc 0) + fl ((1 - 1 / 2 ^ 52) * 1000))\<rfloor>"
    by (simp only: reconnectDelay_def)
  also have "\<dots> = nat \<lfloor>fl (3000 - 1 / 2 ^ 42)\<rfloor>" by (simp only: baseDelay_1 jitter_top_52 s)
  also have "\<dots> = 3000" by (simp only: sum_top_52) simp
  finally show "reconnectDelay (Suc 0) (1 - 1 / 2 ^ 52) = 3000" .
  have s: "(3000::rat) + (1000 - 1 / 2 ^ 43) = 4000 - 1 / 2 ^ 43" by simp
  have "reconnectDelay (Suc (Suc 0)) (1 - 1 / 2 ^ 53) =
        nat \<lfloor>fl (baseDelay (Suc (Suc 0)) + fl ((1 - 1 / 2 ^ 53) * 1000))\<rfloor>"
    by (simp only: reconnectDelay_def)
  also have "\<dots> = nat \<lfloor>fl (4000 - 1 / 2 ^ 43)\<rfloor>" by (simp only: baseDelay_2 jitter_top s)
  also have "\<dots> = 4000" by (simp only: sum_top) simp
  finally show "reconnectDelay (Suc (Suc 0)) (1 - 1 / 2 ^ 53) = 4000" .
qed

lemma reconnectDelay_at0:
  "reconnectDelay (Suc 0) 0 = 2000"
  "reconnectDelay (Suc (Suc 0)) 0 = 3000"
  "reconnectDelay (Suc (Suc (Suc 0))) 0 = 4500"
  "reconnectDelay (Suc (Suc (Suc (Suc 0)))) 0 = 6750"
  "reconnectDelay (Suc (Suc (Suc (Suc (Suc 0))))) 0 = 10125"
  "reconnectDelay (Suc (Suc (Suc (Suc (Suc (Suc 0)))))) 0 = 15187"
proof -
  have n: "Suc (Suc (Suc 0)) = 3" "Suc (Suc (Suc (Suc 0))) = 4"
    "Suc (Suc (Suc (Suc (Suc 0)))) = 5" "Suc (Suc (Suc (Suc (Suc (Suc 0))))) = 6" by simp_all
  have b: "baseDelay 3 = 4500" "baseDelay 4 = 6750" "baseDelay 5 = 10125"
    by (simp_all add: baseDelay_exact power_divide)
  show "reconnectDelay (Suc 0) 0 = 2000" by (simp add: reconnectDelay_zero baseDelay_1)
  show "reconnectDelay (Suc (Suc 0)) 0 = 3000" by (simp add: reconnectDelay_zero baseDelay_2)
  show "reconnectDelay (Suc (Suc (Suc 0))) 0 = 4500" unfolding n by (simp add: reconnectDelay_zero b)
  show "reconnectDelay (Suc (Suc (Suc (Suc 0)))) 0 = 6750" unfolding n by (simp add: reconnectDelay_zero b)
  show "reconnectDelay (Suc (Suc (Suc (Suc (Suc 0))))) 0 = 10125"
    unfolding n by (simp add: reconnectDelay_zero b)
  show "reconnectDelay (Suc (Suc (Suc (Suc (Suc (Suc 0)))))) 0 = 15187"
    by (simp only: n(4) reconnectDelay_sixth)
qed

lemma reconnectDelay_floor:
  assumes "randomValue rnd"
  shows "int (reconnectDelay n rnd) = \<lfloor>fl (baseDelay n + fl (rnd * 1000))\<rfloor>"
proof -
  have "0 \<le> baseDelay n" using baseDelay_quarters [of n] by auto
  with sum_bounds(1) [OF assms, of n] have "0 \<le> fl (baseDelay n + fl (rnd * 1000))" by simp
  then have "0 \<le> \<lfloor>fl (baseDelay n + fl (rnd * 1000))\<rfloor>" by simp
  then show ?thesis by (simp add: reconnectDelay_def)
qed

lemma timedOutState_eq:
  "timedOutState =
     \<lparr> data = None, isConnected = False, error = Some (MsgReconnectingIn 3),
       signalHistory = JArr [], wsRef = Some 0, reconnectTimeoutRef = Some 2,
       connectionTimeoutRef = Some 1, pingIntervalRef = None, reconnectAttemptsRef = 1,
       isMountedRef = True, isCleaningUpRef = False, connectionStateRef = Disconnected,
       connectTimeout = Some 0,
       sockets = [\<lparr>readyState = CLOSING, handlers = True, closeCall = Some CloseNoArgs, pings = 0\<rparr>],
       timers = [None, None, Some (ReconnectTimer, 12550)], clock = 10050 \<rparr>"
  by (simp add: timedOutState_def connectingState_eq step_def fire_def runTimer_def
      connectionTimeoutHandler_def ready_def upd_socket_def close_socket_def
      scheduleReconnect_def clearTimeout_def roundSeconds_def reconnectDelay_half Let_def)

lemma closedState_eq:
  "closedState =
     \<lparr> data = None, isConnected = False, error = Some (MsgReconnectingIn 4),
       signalHistory = JArr [], wsRef = Some 0, reconnectTimeoutRef = Some 3,
       connectionTimeoutRef = None, pingIntervalRef = None, reconnectAttemptsRef = 2,
       isMountedRef = True, isCleaningUpRef = False, connectionStateRef = Disconnected,
       connectTimeout = Some 0,
       sockets = [\<lparr>readyState = CLOSED, handlers = True, closeCall = Some CloseNoArgs, pings = 0\<rparr>],
       timers = [None, None, None, Some (ReconnectTimer, 13550)], clock = 10050 \<rparr>"
  by (simp add: closedState_def timedOutState_eq step_def ready_def upd_socket_def onclose_def
      clearTimers_def scheduleReconnect_def clearTimeout_def roundSeconds_def
      reconnectDelay_half Let_def)

lemma stopTrace_eq:
  "run stopTrace initial =
     \<lparr> data = None, isConnected = False, error = None, signalHistory = JArr [],
       wsRef = None, reconnectTimeoutRef = None, connectionTimeoutRef = None,
       pingIntervalRef = None, reconnectAttemptsRef = 0, isMountedRef = False,
       isCleaningUpRef = False, connectionStateRef = Disconnected, connectTimeout = Some 0,
       sockets = [], timers = [None, Some (GraceTimer, 100)], clock = 0 \<rparr>"
  by (simp add: stopTrace_def initial_def step_def mountEffect_def reconnect_def cleanup_def
      unmountEffect_def clearTimers_def clearTimeout_def Let_def)

subsection \<open>The invariant: reconnect timers\<close>

lemma nth_update_None:
  "t < length ts \<Longrightarrow> isReconnect (ts[u := x] ! t) \<Longrightarrow> \<not> isReconnect x \<Longrightarrow> u \<noteq> t \<and> isReconnect (ts ! t)"
  by (cases "u = t") auto

lemma timers_ok_update:
  assumes "timers_ok ts r" "\<not> isReconnect x"
  shows "timers_ok (ts[t := x]) r"
  unfolding timers_ok_def
proof (intro allI impI)
  fix u assume u: "u < length (ts[t := x])" and rec: "isReconnect (ts[t := x] ! u)"
  from u have u': "u < length ts" by simp
  from nth_update_None [OF u' rec assms(2)] have "isReconnect (ts ! u)" by simp
  with assms(1) u' show "r = Some u" by (simp add: timers_ok_def)
qed

lemma timers_ok_clear: "timers_ok ts r \<Longrightarrow> timers_ok (clearTimeout r' ts) r"
  by (cases r') (simp_all add: clearTimeout_def timers_ok_update)

lemma timers_ok_clear_own: "timers_ok ts r \<Longrightarrow> timers_ok (clearTimeout r ts) None"
proof (cases r)
  case None
  then show "timers_ok ts r \<Longrightarrow> timers_ok (clearTimeout r ts) None" by (simp add: clearTimeout_def)
next
  case (Some u)
  assume ok: "timers_ok ts r"
  show "timers_ok (clearTimeout r ts) None"
    unfolding timers_ok_def
  proof (intro allI impI)
    fix t assume t: "t < length (clearTimeout r ts)" and rec: "isReconnect (clearTimeout r ts ! t)"
    from t have t': "t < length ts" by simp
    from rec Some have "isReconnect (ts[u := None] ! t)" by (simp add: clearTimeout_def)
    with t' have "u \<noteq> t \<and> isReconnect (ts ! t)"
      using nth_update_None [of t ts u None] by simp
    with ok t' Some show "None = Some t" by (auto simp: timers_ok_def)
  qed
qed

lemma timers_ok_append: "timers_ok ts r \<Longrightarrow> \<not> isReconnect x \<Longrightarrow> timers_ok (ts @ [x]) r"
  by (auto simp: timers_ok_def nth_append)

lemma timers_ok_append_own:
  "timers_ok ts None \<Longrightarrow> timers_ok (ts @ [x]) (Some (length ts))"
  by (auto simp: timers_ok_def nth_append)

lemma timers_ok_None: "timers_ok ts None \<Longrightarrow> timers_ok ts r"
  by (auto simp: timers_ok_def)

lemma timers_ok_filter: "timers_ok ts None \<Longrightarrow> filter isReconnect ts = []"
  by (auto simp: timers_ok_def filter_empty_conv in_set_conv_nth)

lemma inv_T_append:
  "inv_T s \<Longrightarrow> \<not> isReconnect x \<Longrightarrow> timers s' = timers s @ [x] \<Longrightarrow>
   reconnectTimeoutRef s' = reconnectTimeoutRef s \<Longrightarrow> inv_T s'"
  by (simp add: inv_T_def timers_ok_append)

lemma clearTimers_T0: "inv_T s \<Longrightarrow> timers_ok (timers (clearTimers s)) None"
  by (simp add: inv_T_def clearTimers_def timers_ok_clear timers_ok_clear_own)

lemma clearTimers_T: "inv_T s \<Longrightarrow> inv_T (clearTimers s)"
  using clearTimers_T0 [of s] by (simp add: inv_T_def)

lemma scheduleReconnect_T:
  assumes "inv_T s"
  shows "inv_T (scheduleReconnect rnd s)"
proof (cases "\<not> isMountedRef s \<or> isCleaningUpRef s")
  case True
  with assms show ?thesis by (simp add: scheduleReconnect_def)
next
  case False
  let ?ts = "clearTimeout (reconnectTimeoutRef s) (timers s)"
  have "timers_ok ?ts None"
    using assms by (simp add: inv_T_def timers_ok_clear_own)
  then have "timers_ok (?ts @ [x]) (Some (length ?ts))" for x
    by (rule timers_ok_append_own)
  with False show ?thesis
    by (simp add: inv_T_def scheduleReconnect_def Let_def)
qed

lemma startPingInterval_T: "inv_T s \<Longrightarrow> inv_T (startPingInterval s)"
  by (simp add: inv_T_def startPingInterval_def Let_def timers_ok_clear timers_ok_append)

lemma cleanup_T: "inv_T s \<Longrightarrow> inv_T (cleanup b s)"
proof -
  assume "inv_T s"
  then have "inv_T (s\<lparr>isCleaningUpRef := True\<rparr>)" by (simp add: inv_T_def)
  from clearTimers_T0 [OF this] show ?thesis
    by (simp add: inv_T_def clearTimers_def timers_ok_None)
qed

lemma connect_T:
  assumes "inv_T s"
  shows "inv_T (connect throws rnd s)"
proof (cases "\<not> isMountedRef s \<or> isCleaningUpRef s \<or> live s")
  case True
  then show ?thesis using assms by (simp only: connect_skip)
next
  case False
  then have c: "isMountedRef s" "\<not> isCleaningUpRef s" "\<not> live s" by simp_all
  have "inv_T (dropSocket s)" using assms by (simp add: inv_T_def)
  then have t3: "inv_T (clearTimers (dropSocket s))" by (rule clearTimers_T)
  show ?thesis
  proof (cases throws)
    case True
    have "inv_T ((clearTimers (dropSocket s))\<lparr>connectionStateRef := Disconnected,
                 error := Some MsgFailedToCreate, isConnected := False\<rparr>)"
      using t3 by (simp add: inv_T_def)
    then have "inv_T (connect True rnd s)"
      unfolding connect_throws [OF c] by (rule scheduleReconnect_T)
    with True show ?thesis by simp
  next
    case False
    have "inv_T (connect False rnd s)"
      unfolding connect_new [OF c] by (rule inv_T_append [OF t3]) simp_all
    with False show ?thesis by simp
  qed
qed

lemma connectionTimeoutHandler_T:
  assumes "inv_T s"
  shows "inv_T (connectionTimeoutHandler w rnd s)"
proof (cases "wsRef s = Some w \<and> ready s w \<noteq> OPEN")
  case False
  then show ?thesis using assms by (auto simp: connectionTimeoutHandler_def)
next
  case True
  let ?s2 = "(upd_socket w (close_socket CloseNoArgs) s)\<lparr>connectionStateRef := Disconnected,
               error := Some MsgConnectionTimeout, isConnected := False\<rparr>"
  have t2: "inv_T ?s2" using assms by (simp add: inv_T_def)
  have "connectionTimeoutHandler w rnd s = (if isMountedRef s then scheduleReconnect rnd ?s2 else ?s2)"
    using True by (simp add: connectionTimeoutHandler_def Let_def)
  then show ?thesis using t2 scheduleReconnect_T [OF t2, of rnd] by simp
qed

lemma onopen_T:
  assumes "inv_T s"
  shows "inv_T (onopen w s)"
proof (cases "wsRef s = Some w")
  case False
  then show ?thesis using assms by (simp add: onopen_def inv_T_def)
next
  case True
  let ?s2 = "s\<lparr>connectionStateRef := Connected, isConnected := True, error := None,
               reconnectAttemptsRef := 0,
               timers := clearTimeout (connectionTimeoutRef s) (timers s),
               connectionTimeoutRef := None\<rparr>"
  have "inv_T ?s2" using assms by (simp add: inv_T_def timers_ok_clear)
  then have "inv_T (startPingInterval ?s2)" by (rule startPingInterval_T)
  moreover have "onopen w s = startPingInterval ?s2"
    using True by (simp add: onopen_def Let_def)
  ultimately show ?thesis by simp
qed

lemma onclose_T:
  assumes "inv_T s"
  shows "inv_T (onclose w code reason rnd s)"
proof (cases "wsRef s = Some w")
  case False
  then show ?thesis using assms by (simp add: onclose_def)
next
  case True
  let ?s1 = "clearTimers (s\<lparr>connectionStateRef := Disconnected, isConnected := False\<rparr>)"
  have "inv_T (s\<lparr>connectionStateRef := Disconnected, isConnected := False\<rparr>)"
    using assms by (simp add: inv_T_def)
  then have t1: "inv_T ?s1" by (rule clearTimers_T)
  then have "inv_T (?s1\<lparr>error := Some MsgConnectionLost\<rparr>)" by (simp add: inv_T_def)
  then have t2: "inv_T (scheduleReconnect rnd (?s1\<lparr>error := Some MsgConnectionLost\<rparr>))"
    by (rule scheduleReconnect_T)
  have "onclose w code reason rnd s = ?s1 \<or>
        onclose w code reason rnd s = scheduleReconnect rnd (?s1\<lparr>error := Some MsgConnectionLost\<rparr>)"
    using True by (simp add: onclose_def Let_def)
  with t1 t2 show ?thesis by auto
qed

lemma reconnect_T: "inv_T s \<Longrightarrow> inv_T (reconnect s)"
proof -
  assume "inv_T s"
  then have "inv_T (s\<lparr>reconnectAttemptsRef := 0\<rparr>)" by (simp add: inv_T_def)
  then have "inv_T (cleanup True (s\<lparr>reconnectAttemptsRef := 0\<rparr>))" by (rule cleanup_T)
  then show ?thesis
    by (rule inv_T_append [where x = "Some (GraceTimer, d)" for d])
       (simp_all add: reconnect_def Let_def)
qed

lemma mountEffect_T: "inv_T s \<Longrightarrow> inv_T (mountEffect s)"
  by (rule inv_T_append [where x = "Some (MountTimer, d)" for d]) (simp_all add: mountEffect_def)

lemma unmountEffect_T: "inv_T s \<Longrightarrow> inv_T (unmountEffect s)"
proof -
  assume "inv_T s"
  then have "inv_T (s\<lparr>timers := clearTimeout (connectTimeout s) (timers s), isMountedRef := False\<rparr>)"
    by (simp add: inv_T_def timers_ok_clear)
  then show ?thesis unfolding unmountEffect_def by (rule cleanup_T)
qed

lemma pingHandler_T: "inv_T s \<Longrightarrow> inv_T (pingHandler s)"
  by (simp add: pingHandler_def inv_T_def split: option.split)

lemma runTimer_T: "inv_T s \<Longrightarrow> inv_T (runTimer k throws rnd s)"
  by (cases k)
     (simp_all add: runTimer_def reconnectHandler_def graceHandler_def mountHandler_def
        connect_T connectionTimeoutHandler_T pingHandler_T)

lemma fire_T:
  assumes "inv_T s"
  shows "inv_T (fire t throws rnd s)"
proof -
  have "inv_T (s\<lparr>timers := (timers s)[t := x]\<rparr>)" if "\<not> isReconnect x" for x
    using assms that by (simp add: inv_T_def timers_ok_update)
  then have "inv_T (runTimer k throws rnd (s\<lparr>timers := (timers s)[t := x]\<rparr>))"
    if "\<not> isReconnect x" for x k
    using that by (intro runTimer_T) simp
  then show ?thesis using assms
    by (auto simp: fire_def split: option.split)
qed

lemma handlers_T:
  "inv_T s \<Longrightarrow> inv_T (handleVisibilityChange v throws rnd s)"
  "inv_T s \<Longrightarrow> inv_T (handleOnline throws rnd s)"
  "inv_T s \<Longrightarrow> inv_T (handleOffline s)"
proof -
  assume a: "inv_T s"
  then have "inv_T (s\<lparr>reconnectAttemptsRef := 0\<rparr>)" by (simp add: inv_T_def)
  then have c: "inv_T (connect throws rnd (s\<lparr>reconnectAttemptsRef := 0\<rparr>))" by (rule connect_T)
  from a c show "inv_T (handleVisibilityChange v throws rnd s)"
    by (simp add: handleVisibilityChange_def)
  from a c show "inv_T (handleOnline throws rnd s)"
    by (simp add: handleOnline_def)
  from a show "inv_T (handleOffline s)"
    by (simp add: handleOffline_def inv_T_def)
qed

lemma step_T:
  assumes "inv_T s"
  shows "inv_T (step throws rnd e s)"
proof (cases e)
  case (SockOpen w)
  have "inv_T (upd_socket w f s)" for f using assms by (simp add: inv_T_def)
  then show ?thesis using assms SockOpen by (simp add: step_def Let_def onopen_T)
next
  case (SockClose w code reason)
  have "inv_T (upd_socket w f s)" for f using assms by (simp add: inv_T_def)
  then show ?thesis using assms SockClose by (simp add: step_def Let_def onclose_T)
next
  case (SockMessage w f)
  then show ?thesis using assms by (simp add: step_def inv_T_def)
next
  case (Advance d)
  then show ?thesis using assms by (simp add: step_def inv_T_def)
qed (use assms in \<open>simp_all add: step_def mountEffect_T unmountEffect_T reconnect_T handlers_T fire_T\<close>)

subsection \<open>The invariant: sockets\<close>

lemma sockets_ok_intro:
  assumes "\<And>v. v < length ks \<Longrightarrow> isLive (ks ! v) \<Longrightarrow> r = Some v"
      and "\<And>v. r = Some v \<Longrightarrow> v < length ks"
      and "\<And>v. r = Some v \<Longrightarrow> handlers (ks ! v)"
  shows "sockets_ok ks r"
  unfolding sockets_ok_def using assms by blast

lemma sockets_ok_live: "sockets_ok ks r \<Longrightarrow> v < length ks \<Longrightarrow> isLive (ks ! v) \<Longrightarrow> r = Some v"
  unfolding sockets_ok_def by blast

lemma sockets_ok_current:
  "sockets_ok ks (Some w) \<Longrightarrow> w < length ks \<and> handlers (ks ! w)"
  by (simp add: sockets_ok_def)

lemma sockets_ok_count:
  assumes "sockets_ok ks r" and "\<And>k. P k \<Longrightarrow> isLive k"
  shows "length (filter P ks) \<le> 1"
proof -
  let ?S = "{i. i < length ks \<and> P (ks ! i)}"
  have sub: "?S \<subseteq> set_option r"
  proof
    fix i assume "i \<in> ?S"
    then have "i < length ks" "isLive (ks ! i)" using assms(2) by simp_all
    with assms(1) have "r = Some i" unfolding sockets_ok_def by blast
    then show "i \<in> set_option r" by simp
  qed
  have fin: "finite (set_option r)" by (cases r) simp_all
  have "card (set_option r) \<le> 1" by (cases r) simp_all
  moreover have "card ?S \<le> card (set_option r)"
    using sub fin by (rule card_mono [rotated])
  ultimately have "card ?S \<le> 1" by (rule order_trans [rotated])
  then show ?thesis unfolding length_filter_conv_card .
qed

lemma sockets_ok_update:
  assumes "sockets_ok ks r" "isLive k \<Longrightarrow> r = Some w" "r = Some w \<Longrightarrow> handlers k"
  shows "sockets_ok (ks[w := k]) r"
proof (rule sockets_ok_intro)
  fix v assume v: "v < length (ks[w := k])" and l: "isLive (ks[w := k] ! v)"
  from v have v': "v < length ks" by simp
  show "r = Some v"
  proof (cases "v = w")
    case True
    from l v' have "isLive k" unfolding True by simp
    then have "r = Some w" by (rule assms(2))
    then show ?thesis unfolding True .
  next
    case False
    with l have "isLive (ks ! v)" by simp
    with assms(1) v' show ?thesis by (intro sockets_ok_live)
  qed
next
  fix v assume "r = Some v"
  with assms(1) show "v < length (ks[w := k])"
    using sockets_ok_current [of ks v] by simp
next
  fix v assume r: "r = Some v"
  with assms(1) have v: "v < length ks" "handlers (ks ! v)"
    using sockets_ok_current [of ks v] by simp_all
  show "handlers (ks[w := k] ! v)"
  proof (cases "v = w")
    case True
    from r have "handlers k" unfolding True by (rule assms(3))
    with v show ?thesis unfolding True by simp
  next
    case False
    with v show ?thesis by simp
  qed
qed

lemma sockets_ok_release:
  assumes "sockets_ok ks (Some w)" "\<not> isLive k"
  shows "sockets_ok (ks[w := k]) None"
proof (rule sockets_ok_intro)
  fix v assume v: "v < length (ks[w := k])" and l: "isLive (ks[w := k] ! v)"
  from v have v': "v < length ks" by simp
  have ne: "v \<noteq> w"
  proof
    assume "v = w"
    with l v' have "isLive k" by simp
    with assms(2) show False ..
  qed
  with l have "isLive (ks ! v)" by simp
  with assms(1) v' have "Some w = Some v" by (intro sockets_ok_live)
  with ne show "None = Some v" by simp
qed simp_all

lemma sockets_ok_new:
  assumes "sockets_ok ks None" "handlers k"
  shows "sockets_ok (ks @ [k]) (Some (length ks))"
proof (rule sockets_ok_intro)
  fix v assume v: "v < length (ks @ [k])" and l: "isLive ((ks @ [k]) ! v)"
  show "Some (length ks) = Some v"
  proof (cases "v < length ks")
    case True
    with l have "isLive (ks ! v)" by (simp add: nth_append)
    with assms(1) True have "None = Some v" by (intro sockets_ok_live)
    then show ?thesis by simp
  next
    case False
    with v show ?thesis by simp
  qed
next
  fix v assume "Some (length ks) = Some v"
  then show "v < length (ks @ [k])" by auto
next
  fix v assume "Some (length ks) = Some v"
  then have "v = length ks" by simp
  with assms(2) show "handlers ((ks @ [k]) ! v)" by simp
qed

lemma live_isLive: "wsRef s = Some w \<Longrightarrow> live s = isLive (sockets s ! w)"
  by (auto simp: live_def ready_def isLive_def)

lemma dropSocket_S:
  assumes "inv_S s" "\<not> live s"
  shows "sockets_ok (sockets (dropSocket s)) None"
proof (cases "wsRef s")
  case None
  with assms show ?thesis by (simp add: dropSocket_def inv_S_def)
next
  case (Some w)
  with assms(2) have "\<not> isLive ((sockets s ! w)\<lparr>handlers := False\<rparr>)"
    by (simp add: live_isLive)
  with assms(1) Some have "sockets_ok ((sockets s)[w := (sockets s ! w)\<lparr>handlers := False\<rparr>]) None"
    by (intro sockets_ok_release) (simp_all add: inv_S_def)
  with Some show ?thesis by (simp add: dropSocket_def)
qed

lemma cleanup_S:
  assumes "inv_S s"
  shows "inv_S (cleanup True s)"
proof (cases "wsRef s")
  case None
  with assms show ?thesis by (simp add: cleanup_def Let_def inv_S_def)
next
  case (Some w)
  from assms Some have "sockets_ok ((sockets s)[w := detachAndClose (sockets s ! w)]) None"
    by (intro sockets_ok_release) (simp_all add: inv_S_def)
  with Some show ?thesis by (simp add: cleanup_def Let_def inv_S_def)
qed

lemma connect_S:
  assumes "inv_S s"
  shows "inv_S (connect throws rnd s)"
proof (cases "\<not> isMountedRef s \<or> isCleaningUpRef s \<or> live s")
  case True
  then show ?thesis using assms by (simp only: connect_skip)
next
  case False
  then have c: "isMountedRef s" "\<not> isCleaningUpRef s" "\<not> live s" by simp_all
  have d: "sockets_ok (sockets (dropSocket s)) None" using assms c(3) by (rule dropSocket_S)
  show ?thesis
  proof (cases throws)
    case True
    have "inv_S (connect True rnd s)"
      unfolding connect_throws [OF c] using d by (simp add: inv_S_def)
    with True show ?thesis by simp
  next
    case False
    have "sockets_ok (sockets (dropSocket s) @
        [\<lparr>readyState = CONNECTING, handlers = True, closeCall = None, pings = 0\<rparr>])
        (Some (length (sockets (dropSocket s))))"
      using d by (rule sockets_ok_new) simp
    then have "inv_S (connect False rnd s)"
      unfolding connect_new [OF c] by (simp add: inv_S_def)
    with False show ?thesis by simp
  qed
qed

lemma close_current_S:
  assumes "inv_S s"
  shows "sockets_ok ((sockets s)[w := close_socket a (sockets s ! w)]) (wsRef s)"
proof (rule sockets_ok_update)
  show "sockets_ok (sockets s) (wsRef s)" using assms by (simp add: inv_S_def)
  show "wsRef s = Some w" if "isLive (close_socket a (sockets s ! w))" using that by simp
  show "handlers (close_socket a (sockets s ! w))" if "wsRef s = Some w"
    using assms that sockets_ok_current [of "sockets s" w] by (simp add: inv_S_def)
qed

lemma connectionTimeoutHandler_S:
  assumes "inv_S s"
  shows "inv_S (connectionTimeoutHandler w rnd s)"
proof (cases "wsRef s = Some w \<and> ready s w \<noteq> OPEN")
  case False
  then show ?thesis using assms by (auto simp: connectionTimeoutHandler_def)
next
  case True
  then have "sockets_ok ((sockets s)[w := close_socket CloseNoArgs (sockets s ! w)]) (Some w)"
    using close_current_S [OF assms, of w CloseNoArgs] by simp
  with True show ?thesis
    by (simp add: connectionTimeoutHandler_def Let_def inv_S_def)
qed

lemma onopen_S:
  assumes "inv_S s"
  shows "inv_S (onopen w s)"
proof (cases "wsRef s = Some w")
  case False
  then show ?thesis using close_current_S [OF assms, of w CloseNoArgs]
    by (simp add: onopen_def inv_S_def)
next
  case True
  with assms have "sockets_ok (sockets s) (Some w)" by (simp add: inv_S_def)
  with True show ?thesis by (simp add: onopen_def Let_def inv_S_def)
qed

lemma onclose_S: "inv_S s \<Longrightarrow> inv_S (onclose w code reason rnd s)"
  by (simp add: inv_S_def)

lemma pingHandler_S:
  assumes "inv_S s"
  shows "inv_S (pingHandler s)"
proof (cases "wsRef s")
  case None
  with assms show ?thesis by (simp add: pingHandler_def)
next
  case (Some w)
  have "sockets_ok ((sockets s)[w := (sockets s ! w)\<lparr>pings := pings (sockets s ! w) + 1\<rparr>]) (wsRef s)"
  proof (rule sockets_ok_update)
    show "sockets_ok (sockets s) (wsRef s)" using assms by (simp add: inv_S_def)
    show "wsRef s = Some w" by (rule Some)
    show "handlers ((sockets s ! w)\<lparr>pings := pings (sockets s ! w) + 1\<rparr>)"
      using assms Some sockets_ok_current [of "sockets s" w] by (simp add: inv_S_def)
  qed
  with assms Some show ?thesis by (simp add: pingHandler_def inv_S_def)
qed

lemma runTimer_S: "inv_S s \<Longrightarrow> inv_S (runTimer k throws rnd s)"
  by (cases k)
     (simp_all add: runTimer_def reconnectHandler_def graceHandler_def mountHandler_def
        connect_S connectionTimeoutHandler_S pingHandler_S)

lemma fire_S:
  assumes "inv_S s"
  shows "inv_S (fire t throws rnd s)"
proof -
  have "inv_S (s\<lparr>timers := ts\<rparr>)" for ts using assms by (simp add: inv_S_def)
  then have "inv_S (runTimer k throws rnd (s\<lparr>timers := ts\<rparr>))" for k ts
    by (rule runTimer_S)
  then show ?thesis using assms by (simp add: fire_def split: option.split)
qed

lemma handlers_S:
  "inv_S s \<Longrightarrow> inv_S (handleVisibilityChange v throws rnd s)"
  "inv_S s \<Longrightarrow> inv_S (handleOnline throws rnd s)"
  "inv_S s \<Longrightarrow> inv_S (handleOffline s)"
proof -
  assume a: "inv_S s"
  then have "inv_S (s\<lparr>reconnectAttemptsRef := 0\<rparr>)" by (simp add: inv_S_def)
  then have c: "inv_S (connect throws rnd (s\<lparr>reconnectAttemptsRef := 0\<rparr>))" by (rule connect_S)
  from a c show "inv_S (handleVisibilityChange v throws rnd s)"
    by (simp add: handleVisibilityChange_def)
  from a c show "inv_S (handleOnline throws rnd s)"
    by (simp add: handleOnline_def)
  from a show "inv_S (handleOffline s)"
    by (simp add: handleOffline_def inv_S_def)
qed

lemma reconnect_S: "inv_S s \<Longrightarrow> inv_S (reconnect s)"
proof -
  assume "inv_S s"
  then have "inv_S (s\<lparr>reconnectAttemptsRef := 0\<rparr>)" by (simp add: inv_S_def)
  then have "inv_S (cleanup True (s\<lparr>reconnectAttemptsRef := 0\<rparr>))" by (rule cleanup_S)
  then show ?thesis by (simp add: reconnect_def Let_def inv_S_def)
qed

lemma unmountEffect_S: "inv_S s \<Longrightarrow> inv_S (unmountEffect s)"
proof -
  assume "inv_S s"
  then have "inv_S (s\<lparr>timers := clearTimeout (connectTimeout s) (timers s), isMountedRef := False\<rparr>)"
    by (simp add: inv_S_def)
  then show ?thesis unfolding unmountEffect_def by (rule cleanup_S)
qed

lemma sock_open_S:
  assumes "inv_S s" "w < length (sockets s)" "ready s w = CONNECTING"
  shows "inv_S (upd_socket w (\<lambda>k. k\<lparr>readyState := OPEN\<rparr>) s)"
proof -
  have cur: "wsRef s = Some w"
    using assms by (intro sockets_ok_live [of "sockets s"]) (simp_all add: inv_S_def isLive_def ready_def)
  have "sockets_ok ((sockets s)[w := (sockets s ! w)\<lparr>readyState := OPEN\<rparr>]) (wsRef s)"
  proof (rule sockets_ok_update)
    show "sockets_ok (sockets s) (wsRef s)" using assms by (simp add: inv_S_def)
    show "wsRef s = Some w" by (rule cur)
    show "handlers ((sockets s ! w)\<lparr>readyState := OPEN\<rparr>)"
      using assms cur sockets_ok_current [of "sockets s" w] by (simp add: inv_S_def)
  qed
  then show ?thesis by (simp add: inv_S_def)
qed

lemma sock_closed_S:
  assumes "inv_S s"
  shows "inv_S (upd_socket w (\<lambda>k. k\<lparr>readyState := CLOSED\<rparr>) s)"
proof -
  have "sockets_ok ((sockets s)[w := (sockets s ! w)\<lparr>readyState := CLOSED\<rparr>]) (wsRef s)"
  proof (rule sockets_ok_update)
    show "sockets_ok (sockets s) (wsRef s)" using assms by (simp add: inv_S_def)
    show "wsRef s = Some w" if "isLive ((sockets s ! w)\<lparr>readyState := CLOSED\<rparr>)"
      using that by simp
    show "handlers ((sockets s ! w)\<lparr>readyState := CLOSED\<rparr>)" if "wsRef s = Some w"
      using assms that sockets_ok_current [of "sockets s" w] by (simp add: inv_S_def)
  qed
  then show ?thesis by (simp add: inv_S_def)
qed

lemma step_S:
  assumes "inv_S s"
  shows "inv_S (step throws rnd e s)"
proof (cases e)
  case (SockOpen w)
  then show ?thesis using assms sock_open_S [OF assms, of w]
    by (simp add: step_def Let_def onopen_S)
next
  case (SockClose w code reason)
  then show ?thesis using assms sock_closed_S [OF assms, of w]
    by (simp add: step_def Let_def onclose_S)
next
  case (SockMessage w f)
  then show ?thesis using assms by (simp add: step_def inv_S_def)
next
  case (Advance d)
  then show ?thesis using assms by (simp add: step_def inv_S_def)
next
  case Mount
  then show ?thesis using assms by (simp add: step_def mountEffect_def inv_S_def)
qed (use assms in \<open>simp_all add: step_def unmountEffect_S reconnect_S handlers_S fire_S\<close>)

subsection \<open>The invariant holds in every reachable state\<close>

lemma step_C: "\<not> isCleaningUpRef s \<Longrightarrow> \<not> isCleaningUpRef (step throws rnd e s)"
  by (cases e)
     (simp_all add: step_def Let_def mountEffect_def unmountEffect_def reconnect_def
        handleVisibilityChange_def handleOnline_def handleOffline_def)

lemma step_invariant: "invariant s \<Longrightarrow> invariant (step throws rnd e s)"
  by (simp add: invariant_def step_C step_S step_T)

lemma run_invariant: "invariant s \<Longrightarrow> invariant (run es s)"
  by (induction es s rule: run.induct) (simp_all add: step_invariant)

lemma invariant_initial: "invariant initial"
  by (simp add: invariant_def inv_S_def inv_T_def initial_def sockets_ok_def timers_ok_def)

subsection \<open>Events of a superseded attempt\<close>

text \<open>
  C1.  An open, message, error or close event whose socket \<open>w\<close> is not the one
  \<open>wsRef\<close> holds changes nothing the hook owns: snapshot, history, connection state,
  connected flag, status text, attempt counter, socket reference and all timers stay as
  they are.  The message, error and close handlers return the state as it is; the open
  handler only calls \<^verbatim>\<open>close()\<close> on the stale socket itself.
\<close>

theorem stale_event_ignored:
  assumes "wsRef s \<noteq> Some w"
  shows "untouched s (onopen w s) \<and>
         onopen w s = s\<lparr>sockets := (sockets s)[w := close_socket CloseNoArgs (sockets s ! w)]\<rparr> \<and>
         onmessage w frame s = s \<and> onerror w s = s \<and> onclose w code reason rnd s = s"
  using assms
  by (simp add: untouched_def onopen_def onmessage_def onerror_def onclose_def upd_socket_def)

theorem stale_event_ignored_witness:
  "wsRef openState \<noteq> Some 1 \<and>
   untouched openState (onopen 1 openState) \<and>
   onopen 1 openState = openState \<and>
   onmessage 1 (Some historyOnlyFrame) openState = openState \<and>
   onerror 1 openState = openState \<and>
   onclose 1 1006 [] (1 / 2) openState = openState"
proof -
  have h: "wsRef openState \<noteq> Some 1" by (simp add: openState_eq)
  have "length (sockets openState) = 1"
    by (simp add: openState_eq)
  then have "(sockets openState)[1 := close_socket CloseNoArgs (sockets openState ! 1)]
      = sockets openState"
    by (simp add: list_update_beyond)
  then have "onopen 1 openState = openState"
    using stale_event_ignored [OF h, of "Some historyOnlyFrame" 1006 "[]" "1 / 2"]
    by simp
  with h stale_event_ignored [OF h, of "Some historyOnlyFrame" 1006 "[]" "1 / 2"]
  show ?thesis by (simp add: untouched_def)
qed

subsection \<open>One live transport\<close>

text \<open>
  C2.  After any sequence of events from the initial state, whatever the environment
  answers, at most one socket is open, indeed at most one is open or connecting; and
  \<^verbatim>\<open>connect\<close> returns the state unchanged, creating no socket, whenever the current
  socket is open or connecting.
\<close>

theorem at_most_one_live_transport:
  "openTransports (run es initial) \<le> 1 \<and> liveTransports (run es initial) \<le> 1 \<and>
   (live s \<longrightarrow> connect throws rnd s = s)"
proof -
  have "invariant (run es initial)"
    using invariant_initial by (rule run_invariant)
  then have ok: "sockets_ok (sockets (run es initial)) (wsRef (run es initial))"
    by (simp add: invariant_def inv_S_def)
  have "openTransports (run es initial) \<le> 1"
    unfolding openTransports_def using ok by (rule sockets_ok_count) (simp add: isLive_def)
  moreover have "liveTransports (run es initial) \<le> 1"
    unfolding liveTransports_def using ok by (rule sockets_ok_count)
  moreover have "live s \<longrightarrow> connect throws rnd s = s"
    by (simp add: connect_skip)
  ultimately show ?thesis by simp
qed

theorem at_most_one_live_transport_witness:
  "openTransports openState \<le> 1 \<and> liveTransports openState \<le> 1 \<and>
   live openState \<and> connect False 0 openState = openState"
proof -
  have l: "live openState" by (simp add: openState_eq live_def ready_def)
  from at_most_one_live_transport [of "[(False, 0, Mount), (False, 0, Advance 50),
      (False, 0, Fire 0), (False, 0, SockOpen 0)]" openState False 0] l
  show ?thesis unfolding openState_run [symmetric] by simp
qed

subsection \<open>Intentional and lost closures\<close>

lemma onclose_pending:
  assumes "inv_T s" "wsRef s = Some w" "isMountedRef s" "\<not> isCleaningUpRef s"
  shows "pendingReconnects (onclose w code reason rnd s) =
           (if code = 1000 \<and> reason = ''Client cleanup'' then 0 else 1)"
    and "reconnectAttemptsRef (onclose w code reason rnd s) =
           (if code = 1000 \<and> reason = ''Client cleanup'' then reconnectAttemptsRef s
            else reconnectAttemptsRef s + 1)"
proof -
  let ?s1 = "clearTimers (s\<lparr>connectionStateRef := Disconnected, isConnected := False\<rparr>)"
  have "inv_T (s\<lparr>connectionStateRef := Disconnected, isConnected := False\<rparr>)"
    using assms(1) by (simp add: inv_T_def)
  then have "timers_ok (timers ?s1) None" by (rule clearTimers_T0)
  then have f: "filter isReconnect (timers ?s1) = []" by (rule timers_ok_filter)
  have m: "isMountedRef (?s1\<lparr>error := Some MsgConnectionLost\<rparr>)"
    "\<not> isCleaningUpRef (?s1\<lparr>error := Some MsgConnectionLost\<rparr>)"
    using assms by simp_all
  show "pendingReconnects (onclose w code reason rnd s) =
           (if code = 1000 \<and> reason = ''Client cleanup'' then 0 else 1)"
    unfolding onclose_current [OF assms(2-4)] pendingReconnects_def
    using f by (simp add: scheduleReconnect_active [OF m] clearTimeout_def)
  show "reconnectAttemptsRef (onclose w code reason rnd s) =
           (if code = 1000 \<and> reason = ''Client cleanup'' then reconnectAttemptsRef s
            else reconnectAttemptsRef s + 1)"
    unfolding onclose_current [OF assms(2-4)]
    by (simp add: scheduleReconnect_active [OF m])
qed

text \<open>
  C3.  In any reachable state, with the hook mounted, the close event of the current
  socket leaves no reconnect timer pending when it carries code 1000 and the reason
  \<^verbatim>\<open>"Client cleanup"\<close>, and exactly one, with the attempt counter one higher, for every
  other code and reason.
\<close>

theorem close_classification:
  assumes "s = run es initial" "wsRef s = Some w" "ready s w \<noteq> CLOSED" "isMountedRef s"
      and "s' = step throws rnd (SockClose w code reason) s"
  shows "pendingReconnects s' = (if code = 1000 \<and> reason = ''Client cleanup'' then 0 else 1) \<and>
         reconnectAttemptsRef s' =
           (if code = 1000 \<and> reason = ''Client cleanup'' then reconnectAttemptsRef s
            else reconnectAttemptsRef s + 1)"
proof -
  have inv: "invariant s"
    unfolding assms(1) using invariant_initial by (rule run_invariant)
  then have cur: "w < length (sockets s)" "handlers (sockets s ! w)"
    using assms(2) sockets_ok_current [of "sockets s" w]
    by (simp_all add: invariant_def inv_S_def)
  let ?s1 = "upd_socket w (\<lambda>k. k\<lparr>readyState := CLOSED\<rparr>) s"
  have s': "s' = onclose w code reason rnd ?s1"
    using cur assms(3) by (simp add: assms(5) step_def Let_def)
  have "inv_T ?s1" "wsRef ?s1 = Some w" "isMountedRef ?s1" "\<not> isCleaningUpRef ?s1"
    using inv assms(2,4) by (simp_all add: invariant_def inv_T_def)
  from onclose_pending [OF this, of code reason rnd] show ?thesis
    unfolding s' by simp
qed

theorem close_classification_witness:
  "openState = run [(False, 0, Mount), (False, 0, Advance 50), (False, 0, Fire 0),
                    (False, 0, SockOpen 0)] initial \<and>
   wsRef openState = Some 0 \<and> ready openState 0 \<noteq> CLOSED \<and> isMountedRef openState \<and>
   pendingReconnects (step False (1 / 2) (SockClose 0 1006 []) openState) = 1 \<and>
   pendingReconnects (step False (1 / 2) (SockClose 0 1001 ''Client cleanup'') openState) = 1 \<and>
   pendingReconnects (step False (1 / 2) (SockClose 0 1000 ''Client cleanup'') openState) = 0"
proof -
  have h: "wsRef openState = Some 0" "ready openState 0 \<noteq> CLOSED" "isMountedRef openState"
    by (simp_all add: openState_eq ready_def)
  note t = close_classification [OF openState_run h refl, of False "1 / 2"]
  from t [of 1006 "[]"] t [of 1001 "''Client cleanup''"] t [of 1000 "''Client cleanup''"]
    h openState_run
  show ?thesis by simp
qed

subsection \<open>The delay of a scheduled reconnect\<close>

text \<open>A lost closure counts one failure and arms the reconnect timer for the new count.\<close>

lemma lost_closure_step:
  assumes "isLostClosure (SockClose w code reason) s"
  shows "reconnectAttemptsRef (step throws rnd (SockClose w code reason) s)
           = reconnectAttemptsRef s + 1"
    and "reconnectTimeoutRef (step throws rnd (SockClose w code reason) s)
           = Some (length (timers s))"
    and "timers (step throws rnd (SockClose w code reason) s) ! length (timers s)
           = Some (ReconnectTimer, clock s + reconnectDelay (reconnectAttemptsRef s + 1) rnd)"
proof -
  let ?s1 = "upd_socket w (\<lambda>k. k\<lparr>readyState := CLOSED\<rparr>) s"
  let ?s2 = "(clearTimers (?s1\<lparr>connectionStateRef := Disconnected, isConnected := False\<rparr>))
               \<lparr>error := Some MsgConnectionLost\<rparr>"
  from assms have a: "w < length (sockets s)" "ready s w \<noteq> CLOSED" "handlers (sockets s ! w)"
    "wsRef s = Some w" "isMountedRef s" "\<not> isCleaningUpRef s"
    "\<not> (code = 1000 \<and> reason = ''Client cleanup'')" by simp_all
  have "step throws rnd (SockClose w code reason) s = onclose w code reason rnd ?s1"
    using a(1-3) by (simp add: step_def Let_def)
  also have "\<dots> = scheduleReconnect rnd ?s2"
    using a(4-7) by (subst onclose_current) auto
  finally have eq: "step throws rnd (SockClose w code reason) s = scheduleReconnect rnd ?s2" .
  have m: "isMountedRef ?s2" "\<not> isCleaningUpRef ?s2"
    "reconnectAttemptsRef ?s2 = reconnectAttemptsRef s"
    "clock ?s2 = clock s" "length (timers ?s2) = length (timers s)"
    using a(5,6) by simp_all
  show "reconnectAttemptsRef (step throws rnd (SockClose w code reason) s)
          = reconnectAttemptsRef s + 1"
    unfolding eq using m by (simp add: scheduleReconnect_active)
  show "reconnectTimeoutRef (step throws rnd (SockClose w code reason) s)
          = Some (length (timers s))"
    unfolding eq using m by (simp add: scheduleReconnect_active)
  show "timers (step throws rnd (SockClose w code reason) s) ! length (timers s)
          = Some (ReconnectTimer, clock s + reconnectDelay (reconnectAttemptsRef s + 1) rnd)"
    unfolding eq using m by (simp add: scheduleReconnect_active nth_append)
qed

text \<open>Every other close event, and every other steady event, leaves the count alone.\<close>

lemma other_close_step:
  assumes "\<not> isLostClosure (SockClose w code reason) s"
  shows "reconnectAttemptsRef (step throws rnd (SockClose w code reason) s)
           = reconnectAttemptsRef s"
proof (cases "w < length (sockets s) \<and> ready s w \<noteq> CLOSED \<and> handlers (sockets s ! w)")
  case False
  then show ?thesis by (auto simp: step_def Let_def)
next
  case True
  let ?s1 = "upd_socket w (\<lambda>k. k\<lparr>readyState := CLOSED\<rparr>) s"
  from True have eq: "step throws rnd (SockClose w code reason) s = onclose w code reason rnd ?s1"
    by (simp add: step_def Let_def)
  from True assms have "wsRef s \<noteq> Some w \<or> \<not> isMountedRef s \<or> isCleaningUpRef s \<or>
      (code = 1000 \<and> reason = ''Client cleanup'')" by auto
  then show ?thesis unfolding eq by (auto simp: onclose_def Let_def)
qed

lemma connect_counter:
  "reconnectAttemptsRef (connect False rnd s) = reconnectAttemptsRef s"
proof (cases "\<not> isMountedRef s \<or> isCleaningUpRef s \<or> live s")
  case True
  then show ?thesis by (simp only: connect_skip)
next
  case False
  then have "isMountedRef s" "\<not> isCleaningUpRef s" "\<not> live s" by simp_all
  then show ?thesis by (simp add: connect_new)
qed

lemma runTimer_counter:
  assumes "\<not> isTimeout (Some (k, due))"
  shows "reconnectAttemptsRef (runTimer k False rnd s) = reconnectAttemptsRef s"
  using assms
  by (cases k)
     (simp_all add: runTimer_def reconnectHandler_def graceHandler_def mountHandler_def
        pingHandler_def connect_counter split: option.split)

lemma fire_counter:
  assumes "steady (Fire t) s"
  shows "reconnectAttemptsRef (fire t False rnd s) = reconnectAttemptsRef s"
proof (cases "t < length (timers s)")
  case False
  then show ?thesis by (simp add: fire_def)
next
  case True
  with assms have n: "\<not> isTimeout (timers s ! t)" by simp
  show ?thesis
  proof (cases "timers s ! t")
    case None
    with True show ?thesis by (simp add: fire_def)
  next
    case (Some a)
    obtain k due where a: "a = (k, due)" by (cases a)
    from n Some a have "\<not> isTimeout (Some (k, due))" by simp
    then have "reconnectAttemptsRef (runTimer k False rnd s') = reconnectAttemptsRef s'" for s'
      by (rule runTimer_counter)
    with True Some a show ?thesis by (simp add: fire_def)
  qed
qed

lemma step_counter:
  assumes "steady e s"
  shows "reconnectAttemptsRef (step False rnd e s)
           = reconnectAttemptsRef s + (if isLostClosure e s then 1 else 0)"
proof (cases e)
  case Mount
  then show ?thesis by (simp add: step_def mountEffect_def)
next
  case Unmount
  then show ?thesis by (simp add: step_def unmountEffect_def)
next
  case (VisibilityChange v)
  with assms show ?thesis by (simp add: step_def handleVisibilityChange_def)
next
  case Offline
  then show ?thesis by (simp add: step_def handleOffline_def)
next
  case (Advance d)
  then show ?thesis by (simp add: step_def)
next
  case (Fire t)
  with assms show ?thesis by (simp add: step_def fire_counter)
next
  case (SockMessage w f)
  then show ?thesis by (simp add: step_def)
next
  case (SockError w)
  then show ?thesis by (simp add: step_def)
next
  case (SockClose w code reason)
  show ?thesis
  proof (cases "isLostClosure (SockClose w code reason) s")
    case True
    then show ?thesis unfolding SockClose by (simp only: lost_closure_step(1) if_True)
  next
    case False
    then have "reconnectAttemptsRef (step False rnd (SockClose w code reason) s)
        = reconnectAttemptsRef s" by (rule other_close_step)
    with False show ?thesis unfolding SockClose by (simp only: if_False add_0_right)
  qed
qed (use assms in simp_all)

lemma run_counter:
  "steadyRun es s \<Longrightarrow> reconnectAttemptsRef (run es s) = reconnectAttemptsRef s + lostCount es s"
proof (induction es s rule: run.induct)
  case (1 s)
  show ?case by simp
next
  case (2 throws rnd e es s)
  from "2.prems" have f: "throws = False" by simp
  from "2.prems" have p: "steady e s" "steadyRun es (step False rnd e s)"
    unfolding f by simp_all
  from "2.IH" [unfolded f, OF p(2)] step_counter [OF p(1), of rnd] show ?case
    unfolding f by simp
qed

text \<open>The run with the server down, computed.\<close>

lemma lostTrace_facts:
  "steadyRun lostTrace connectingState"
  "lostCount lostTrace connectingState = 5"
  "isLostClosure (SockClose 5 1006 []) (run lostTrace connectingState)"
  "length (timers (run lostTrace connectingState)) = 12"
  "clock (run lostTrace connectingState) = 26425"
  by (simp_all add: lostTrace_def connectingState_eq step_def fire_def runTimer_def
      reconnectHandler_def connect_def live_def ready_def dropSocket_def upd_socket_def
      onclose_def clearTimers_def clearTimeout_def scheduleReconnect_def roundSeconds_def
      reconnectDelay_at0 CONNECTION_TIMEOUT_def Let_def)

text \<open>
  C4, as the code has it.  Take a run that starts with the attempt count at 0, as it is
  initially and after every open event, and in which no socket opens, no manual
  reconnect is made, the network does not come online, the page does not become
  visible, no connection timeout fires and \<^verbatim>\<open>new WebSocket\<close> does not throw.  If the
  run holds \<open>n - 1\<close> lost closures, the next lost closure is the \<open>n\<close>-th in a row: it
  sets the count to \<open>n\<close> and arms the reconnect timer \<open>reconnectDelay n rnd\<close>
  milliseconds ahead.  That delay is the sum of the base \<open>min (2000 \<cdot> 1.5^(n-1)) 30000\<close>
  and the jitter, rounded to a double and then down to a whole number; the jitter,
  \<^verbatim>\<open>Math.random() * 1000\<close> as a double, lies in \<open>[0, 1000)\<close>.  So the delay is at least
  the base rounded down, more than \<open>base - 1\<close>, and at most \<open>base + 1000\<close>.  The base
  never decreases from one attempt to the next and never exceeds 30000; with no jitter
  the delay never decreases from one attempt to the next either.
\<close>

theorem backoff_after_lost_closures:
  assumes "reconnectAttemptsRef s0 = 0" "steadyRun es s0" "s = run es s0"
      and "isLostClosure (SockClose w code reason) s" "randomValue rnd"
      and "n = lostCount es s0 + 1"
      and "s' = step throws rnd (SockClose w code reason) s"
  shows "reconnectAttemptsRef s' = n \<and>
         reconnectTimeoutRef s' = Some (length (timers s)) \<and>
         timers s' ! length (timers s) = Some (ReconnectTimer, clock s + reconnectDelay n rnd) \<and>
         baseDelay n = min (2000 * (3 / 2) ^ (n - 1)) 30000 \<and>
         int (reconnectDelay n rnd) = \<lfloor>fl (baseDelay n + fl (rnd * 1000))\<rfloor> \<and>
         0 \<le> fl (rnd * 1000) \<and> fl (rnd * 1000) < 1000 \<and>
         \<lfloor>baseDelay n\<rfloor> \<le> int (reconnectDelay n rnd) \<and>
         baseDelay n - 1 < of_nat (reconnectDelay n rnd) \<and>
         of_nat (reconnectDelay n rnd) \<le> baseDelay n + 1000 \<and>
         baseDelay n \<le> baseDelay (Suc n) \<and> baseDelay (Suc n) \<le> 30000 \<and>
         reconnectDelay n 0 \<le> reconnectDelay (Suc n) 0"
proof -
  have c: "reconnectAttemptsRef s + 1 = n"
    unfolding assms(3,6) using run_counter [OF assms(2)] assms(1) by simp
  note l = lost_closure_step [OF assms(4), of throws rnd, folded assms(7), unfolded c]
  have j: "fl (rnd * 1000) < 1000"
    using jitter_bounds(2) [OF assms(5)] by (rule le_less_trans) simp
  from l baseDelay_exact [of n] reconnectDelay_floor [OF assms(5), of n]
    jitter_bounds(1) [OF assms(5)] j reconnectDelay_bounds [OF assms(5), of n]
    baseDelay_mono [of n] baseDelay_le_cap [of "Suc n"] reconnectDelay_mono [of n]
  show ?thesis by simp
qed

theorem backoff_after_lost_closures_witness:
  "reconnectAttemptsRef connectingState = 0 \<and> steadyRun lostTrace connectingState \<and>
   isLostClosure (SockClose 5 1006 []) (run lostTrace connectingState) \<and>
   randomValue (1 / 2) \<and> 6 = lostCount lostTrace connectingState + 1 \<and>
   reconnectAttemptsRef (step False (1 / 2) (SockClose 5 1006 [])
      (run lostTrace connectingState)) = 6 \<and>
   timers (step False (1 / 2) (SockClose 5 1006 []) (run lostTrace connectingState)) ! 12
     = Some (ReconnectTimer, 26425 + reconnectDelay 6 (1 / 2)) \<and>
   \<lfloor>baseDelay 6\<rfloor> \<le> int (reconnectDelay 6 (1 / 2)) \<and>
   of_nat (reconnectDelay 6 (1 / 2)) \<le> baseDelay 6 + 1000"
proof -
  have h: "reconnectAttemptsRef connectingState = 0" by (simp add: connectingState_eq)
  have n: "(6::nat) = lostCount lostTrace connectingState + 1" by (simp add: lostTrace_facts(2))
  note t = backoff_after_lost_closures [OF h lostTrace_facts(1) refl lostTrace_facts(3)
      randomValue_examples(2) n refl, of False, unfolded lostTrace_facts(4,5)]
  from t h lostTrace_facts(1,3) randomValue_examples(2) n show ?thesis by blast
qed

text \<open>
  The claim as stated, that the delay is \<open>base + j\<close> for a \<open>j\<close> in \<open>[0, 1000)\<close>,
  fails in both directions.  With the server down and \<^verbatim>\<open>Math.random()\<close> returning 0,
  the sixth closure in a row has the base 15187.5 and arms the timer 15187 ms ahead,
  less than the base.  And at the second attempt, with \<^verbatim>\<open>Math.random()\<close> returning
  \<open>1 - 2^-53\<close>, the sum of the base 3000 and the jitter rounds to the double 4000, so
  the delay is the base plus a full 1000.
\<close>

theorem backoff_delay_counterexample:
  "steadyRun lostTrace connectingState \<and> lostCount lostTrace connectingState = 5 \<and>
   isLostClosure (SockClose 5 1006 []) (run lostTrace connectingState) \<and>
   reconnectAttemptsRef (step False 0 (SockClose 5 1006 []) (run lostTrace connectingState)) = 6 \<and>
   timers (step False 0 (SockClose 5 1006 []) (run lostTrace connectingState)) ! 12
     = Some (ReconnectTimer, 26425 + 15187) \<and>
   baseDelay 6 = 30375 / 2 \<and>
   \<not> (\<exists>j. 0 \<le> j \<and> j < 1000 \<and> (15187 :: rat) = baseDelay 6 + j) \<and>
   randomValue (1 - 1 / 2 ^ 53) \<and> baseDelay 2 = 3000 \<and>
   reconnectDelay 2 (1 - 1 / 2 ^ 53) = 4000 \<and>
   \<not> (\<exists>j. 0 \<le> j \<and> j < 1000 \<and> of_nat (reconnectDelay 2 (1 - 1 / 2 ^ 53)) = baseDelay 2 + j)"
proof -
  have z: "reconnectAttemptsRef connectingState = 0" by (simp add: connectingState_eq)
  have c: "reconnectAttemptsRef (run lostTrace connectingState) = 5"
    unfolding run_counter [OF lostTrace_facts(1)] z lostTrace_facts(2) by simp
  note l = lost_closure_step [OF lostTrace_facts(3), of False 0]
  have d: "reconnectDelay 6 0 = 15187" by (rule reconnectDelay_sixth)
  have t: "reconnectDelay 2 (1 - 1 / 2 ^ 53) = 4000"
    using reconnectDelay_top_52(2) by (simp only: numeral_2_eq_2)
  have b: "baseDelay 2 = 3000" using baseDelay_2 by (simp only: numeral_2_eq_2)
  have "\<not> (\<exists>j. 0 \<le> j \<and> j < 1000 \<and> (15187 :: rat) = baseDelay 6 + j)"
    unfolding baseDelay_6 by auto
  moreover have "\<not> (\<exists>j. 0 \<le> j \<and> j < 1000 \<and>
      of_nat (reconnectDelay 2 (1 - 1 / 2 ^ 53)) = baseDelay 2 + j)"
    unfolding t b by auto
  ultimately show ?thesis
    using l c d t b lostTrace_facts baseDelay_6 randomValue_examples(3) by simp
qed

text \<open>
  Why the run must be steady: when the network comes back online between two lost
  closures the count starts again, and the second closure in a row is scheduled like a
  first one.
\<close>

lemma online_resets_count:
  "isLostClosure (SockClose 0 1006 []) openState \<and>
   isLostClosure (SockClose 1 1006 []) (run onlineTrace openState) \<and>
   lostCount onlineTrace openState = 1 \<and> \<not> steadyRun onlineTrace openState \<and>
   reconnectAttemptsRef (step False 0 (SockClose 1 1006 []) (run onlineTrace openState)) = 1 \<and>
   timers (step False 0 (SockClose 1 1006 []) (run onlineTrace openState)) ! 5
     = Some (ReconnectTimer, 50 + 2000)"
  by (simp add: onlineTrace_def openState_eq step_def handleOnline_def connect_def live_def
      ready_def dropSocket_def upd_socket_def onclose_def clearTimers_def clearTimeout_def
      scheduleReconnect_def roundSeconds_def reconnectDelay_at0 CONNECTION_TIMEOUT_def Let_def)

subsection \<open>The connection timeout\<close>

text \<open>
  When the timeout fires on a socket that is still connecting, the handler closes the
  socket and schedules the first retry; it leaves the socket's handlers in place and
  \<open>wsRef\<close> pointing at it.  The browser then reports that socket closed, the close
  handler finds it current, cancels the retry just scheduled and schedules another,
  counting the same failure a second time.
\<close>

lemma timeout_then_close:
  assumes "wsRef s = Some w" "w < length (sockets s)" "ready s w = CONNECTING"
    "handlers (sockets s ! w)" "isMountedRef s" "\<not> isCleaningUpRef s"
    "reconnectAttemptsRef s = 0" "\<not> (code = 1000 \<and> reason = ''Client cleanup'')"
    and "s1 = connectionTimeoutHandler w rnd s"
    and "s2 = step throws rnd' (SockClose w code reason) s1"
  shows "reconnectAttemptsRef s1 = 1" "reconnectAttemptsRef s2 = 2"
    "timers s2 ! (length (timers s) + 1) = Some (ReconnectTimer, clock s + reconnectDelay 2 rnd')"
    "reconnectTimeoutRef s2 = Some (length (timers s) + 1)"
    "timers s2 ! length (timers s) = None"
proof -
  let ?c = "(upd_socket w (close_socket CloseNoArgs) s)\<lparr>connectionStateRef := Disconnected,
              error := Some MsgConnectionTimeout, isConnected := False\<rparr>"
  have m: "isMountedRef ?c" "\<not> isCleaningUpRef ?c" using assms(5,6) by simp_all
  have s1: "s1 = scheduleReconnect rnd ?c"
    using assms(1,3,5) by (simp add: assms(9) connectionTimeoutHandler_def Let_def)
  have f1: "wsRef s1 = Some w" "isMountedRef s1" "\<not> isCleaningUpRef s1"
    "reconnectAttemptsRef s1 = 1" "length (timers s1) = length (timers s) + 1"
    "reconnectTimeoutRef s1 = Some (length (timers s))" "clock s1 = clock s"
    "length (sockets s1) = length (sockets s)"
    "sockets s1 ! w = close_socket CloseNoArgs (sockets s ! w)"
    unfolding s1 scheduleReconnect_active [OF m] using assms(1,2,5,6,7) by simp_all
  then show "reconnectAttemptsRef s1 = 1" by simp
  let ?d = "upd_socket w (\<lambda>k. k\<lparr>readyState := CLOSED\<rparr>) s1"
  let ?e = "(clearTimers (?d\<lparr>connectionStateRef := Disconnected, isConnected := False\<rparr>))
              \<lparr>error := Some MsgConnectionLost\<rparr>"
  have "ready s1 w = CLOSING" "handlers (sockets s1 ! w)"
    using f1(9) assms(3,4) by (simp_all add: ready_def close_socket_def)
  then have "s2 = onclose w code reason rnd' ?d"
    using f1(8) assms(2) by (simp add: assms(10) step_def Let_def)
  also have "\<dots> = scheduleReconnect rnd' ?e"
    using f1(1-3) assms(8) by (subst onclose_current) auto
  finally have s2: "s2 = scheduleReconnect rnd' ?e" .
  have me: "isMountedRef ?e" "\<not> isCleaningUpRef ?e" using f1(2,3) by simp_all
  have te: "timers ?e = clearTimeout (pingIntervalRef s1) (clearTimeout (connectionTimeoutRef s1)
      ((timers s1)[length (timers s) := None]))"
    using f1(6) by (simp add: clearTimers_def clearTimeout_def upd_socket_def)
  have fe: "reconnectAttemptsRef ?e = 1" "length (timers ?e) = length (timers s) + 1"
    "clock ?e = clock s" "reconnectTimeoutRef ?e = None"
    using f1(4,5,7) by simp_all
  show "reconnectAttemptsRef s2 = 2"
    unfolding s2 scheduleReconnect_active [OF me] using fe by simp
  show "reconnectTimeoutRef s2 = Some (length (timers s) + 1)"
    unfolding s2 scheduleReconnect_active [OF me] using fe by simp
  show "timers s2 ! (length (timers s) + 1) = Some (ReconnectTimer, clock s + reconnectDelay 2 rnd')"
    unfolding s2 scheduleReconnect_active [OF me] using fe
    by (simp add: nth_append clearTimeout_def numeral_2_eq_2)
  have "timers ?e ! length (timers s) = None"
    unfolding te using f1(5) by (simp add: clearTimeout_nth)
  then show "timers s2 ! length (timers s) = None"
    unfolding s2 scheduleReconnect_active [OF me] using fe
    by (simp add: nth_append clearTimeout_def)
qed

text \<open>
  C5, on the run of the first attempt with \<^verbatim>\<open>Math.random() = 0.5\<close>.  Right after the
  timeout, at 10050 ms, the count is 1 and the retry is due at 12550 ms, as the claim
  says.  Once the close event of the timed-out socket has been handled the count is 2,
  the retry of 12550 ms is cancelled and the only one pending is due at 13550 ms:
  nothing starts at 12550 ms, and the second socket is created at 13550 ms, which is
  13500 ms after the first began connecting.
\<close>

theorem timeout_counted_twice:
  "reconnectAttemptsRef timedOutState = 1 \<and>
   timers timedOutState = [None, None, Some (ReconnectTimer, 12550)] \<and>
   readyState (sockets timedOutState ! 0) = CLOSING \<and>
   handlers (sockets timedOutState ! 0) \<and> wsRef timedOutState = Some 0 \<and>
   reconnectAttemptsRef closedState = 2 \<and>
   timers closedState = [None, None, None, Some (ReconnectTimer, 13550)] \<and>
   length (sockets (run [(False, 0, Advance 2500), (False, 0, Fire 2)] closedState)) = 1 \<and>
   length (sockets (run [(False, 0, Advance 3500), (False, 0, Fire 3)] closedState)) = 2"
  by (simp add: timedOutState_eq closedState_eq step_def fire_def runTimer_def
      reconnectHandler_def connect_def live_def ready_def dropSocket_def upd_socket_def
      clearTimers_def clearTimeout_def Let_def)

subsection \<open>Stopping\<close>

lemma cleanup_fixed:
  assumes "reconnectTimeoutRef v = None" "connectionTimeoutRef v = None"
    "pingIntervalRef v = None" "wsRef v = None" "connectionStateRef v = Disconnected"
    "\<not> isCleaningUpRef v"
  shows "cleanup b v = v"
  using assms by (cases v) (simp add: cleanup_def clearTimers_def clearTimeout_def Let_def)

lemma unmountEffect_fields:
  "reconnectTimeoutRef (unmountEffect s) = None"
  "connectionTimeoutRef (unmountEffect s) = None"
  "pingIntervalRef (unmountEffect s) = None"
  "wsRef (unmountEffect s) = None"
  "connectionStateRef (unmountEffect s) = Disconnected"
  "\<not> isCleaningUpRef (unmountEffect s)"
  "\<not> isMountedRef (unmountEffect s)"
  "connectTimeout (unmountEffect s) = connectTimeout s"
  "length (sockets (unmountEffect s)) = length (sockets s)"
  by (simp_all add: unmountEffect_def cleanup_def clearTimers_def Let_def upd_socket_def
      split: option.split)

lemma unmountEffect_timers:
  "timers (unmountEffect s) =
     clearTimeout (pingIntervalRef s) (clearTimeout (connectionTimeoutRef s)
       (clearTimeout (reconnectTimeoutRef s) (clearTimeout (connectTimeout s) (timers s))))"
  by (simp add: unmountEffect_def clearTimers_def)

lemma unmountEffect_idem: "unmountEffect (unmountEffect s) = unmountEffect s"
proof -
  let ?u = "unmountEffect s"
  have "clearTimeout (connectTimeout s) (timers ?u) = timers ?u"
    unfolding unmountEffect_timers
    by (simp add: clearTimeout_commute [of "connectTimeout s"])
  then have "?u\<lparr>timers := clearTimeout (connectTimeout ?u) (timers ?u), isMountedRef := False\<rparr> = ?u"
    using unmountEffect_fields(7) [of s] by (simp add: unmountEffect_fields(8))
  then have "unmountEffect ?u = cleanup True ?u"
    by (simp add: unmountEffect_def [of ?u])
  also have "\<dots> = ?u"
    by (rule cleanup_fixed) (simp_all add: unmountEffect_fields)
  finally show ?thesis .
qed

lemma unmountEffect_stopped: "stopped (unmountEffect s)"
  by (simp add: stopped_def unmountEffect_def cleanup_def clearTimers_def Let_def upd_socket_def
      split: option.split)

lemma unmountEffect_cancels:
  assumes "t < length (timers s)"
    and "reconnectTimeoutRef s = Some t \<or> connectionTimeoutRef s = Some t \<or>
         pingIntervalRef s = Some t \<or> connectTimeout s = Some t"
  shows "timers (unmountEffect s) ! t = None"
  using assms by (auto simp: unmountEffect_timers clearTimeout_nth)

lemma unmountEffect_detaches:
  assumes "wsRef s = Some w" "w < length (sockets s)"
  shows "\<not> handlers (sockets (unmountEffect s) ! w)"
    and "\<not> isLive (sockets (unmountEffect s) ! w)"
proof -
  have "sockets (unmountEffect s) ! w = detachAndClose (sockets s ! w)"
    using assms by (simp add: unmountEffect_def cleanup_def Let_def)
  moreover have "\<not> handlers (detachAndClose k)" for k
    by (simp add: detachAndClose_def Let_def)
  ultimately show "\<not> handlers (sockets (unmountEffect s) ! w)"
    and "\<not> isLive (sockets (unmountEffect s) ! w)"
    by simp_all
qed

lemma stopped_runTimer: "stopped s \<Longrightarrow> runTimer k throws rnd s = s"
  by (cases k)
     (simp_all add: runTimer_def stopped_def reconnectHandler_def graceHandler_def
        mountHandler_def connectionTimeoutHandler_def pingHandler_def)

lemma stopped_fire:
  assumes "stopped s"
  shows "stopped (fire t throws rnd s)" "sockets (fire t throws rnd s) = sockets s"
proof -
  have st: "stopped (s\<lparr>timers := ts\<rparr>)" for ts using assms by (simp add: stopped_def)
  have "fire t throws rnd s = s \<or> (\<exists>ts. fire t throws rnd s = s\<lparr>timers := ts\<rparr>)"
    by (auto simp: fire_def stopped_runTimer [OF st] split: option.split)
  then show "stopped (fire t throws rnd s)" "sockets (fire t throws rnd s) = sockets s"
    using assms st by auto
qed

lemma stopped_cleanup:
  assumes "stopped s"
  shows "stopped (cleanup b s)" "sockets (cleanup b s) = sockets s"
  using assms by (simp_all add: stopped_def cleanup_def Let_def)

lemma step_stopped:
  assumes "stopped s" "notMount e"
  shows "stopped (step throws rnd e s) \<and> length (sockets (step throws rnd e s)) = length (sockets s)"
proof (cases e)
  case Unmount
  have "stopped (s\<lparr>timers := ts, isMountedRef := False\<rparr>)" for ts
    using assms by (simp add: stopped_def)
  from stopped_cleanup [OF this, of True] Unmount show ?thesis
    by (simp add: step_def unmountEffect_def)
next
  case ManualReconnect
  have "stopped (s\<lparr>reconnectAttemptsRef := 0\<rparr>)" using assms by (simp add: stopped_def)
  from stopped_cleanup [OF this, of True] ManualReconnect show ?thesis
    by (simp add: step_def reconnect_def Let_def stopped_def)
next
  case (Fire t)
  with stopped_fire [OF assms(1), of t throws rnd] show ?thesis by (simp add: step_def)
next
  case (SockOpen w)
  from assms have "wsRef (upd_socket w f s) \<noteq> Some w" for f by (simp add: stopped_def)
  then have "onopen w (upd_socket w f s) = upd_socket w (close_socket CloseNoArgs) (upd_socket w f s)" for f
    by (simp add: onopen_def)
  with assms SockOpen show ?thesis by (simp add: step_def Let_def stopped_def)
next
  case (SockMessage w f)
  with assms show ?thesis by (simp add: step_def onmessage_def stopped_def)
next
  case (SockClose w code reason)
  from assms have "wsRef (upd_socket w f s) \<noteq> Some w" for f by (simp add: stopped_def)
  then have "onclose w code reason rnd (upd_socket w f s) = upd_socket w f s" for f
    by (simp add: onclose_def)
  with assms SockClose show ?thesis by (simp add: step_def Let_def stopped_def)
qed (use assms in \<open>simp_all add: step_def stopped_def\<close>)

lemma run_stopped:
  assumes "stopped s" "list_all (\<lambda>x. notMount (snd (snd x))) es"
  shows "stopped (run es s) \<and> length (sockets (run es s)) = length (sockets s)"
  using assms
proof (induction es s rule: run.induct)
  case (1 s)
  then show ?case by simp
next
  case (2 throws rnd e es s)
  from 2(2,3) have "stopped (step throws rnd e s)"
    and "length (sockets (step throws rnd e s)) = length (sockets s)"
    using step_stopped [of s e throws rnd] by simp_all
  with 2 show ?case by simp
qed

text \<open>
  C6, as the code has it.  The effect's cleanup run twice gives the state it gives when
  run once.  It clears the three timers the refs hold and the mount timer of its own
  effect, sets the refs to \<^verbatim>\<open>null\<close>, and detaches the handlers of the current socket and
  closes it.  From then on, through any events other than a new mount, the hook stays
  unmounted with no socket, no socket is created, and the callback of any timer that
  still fires returns the state as it found it.
\<close>

theorem stop_is_final:
  assumes "list_all (\<lambda>x. notMount (snd (snd x))) es"
      and "s' = run es (unmountEffect s)"
  shows "unmountEffect (unmountEffect s) = unmountEffect s \<and>
         reconnectTimeoutRef (unmountEffect s) = None \<and>
         connectionTimeoutRef (unmountEffect s) = None \<and>
         pingIntervalRef (unmountEffect s) = None \<and>
         (\<forall>t<length (timers s).
            reconnectTimeoutRef s = Some t \<or> connectionTimeoutRef s = Some t \<or>
            pingIntervalRef s = Some t \<or> connectTimeout s = Some t
            \<longrightarrow> timers (unmountEffect s) ! t = None) \<and>
         (\<forall>w<length (sockets s). wsRef s = Some w
            \<longrightarrow> \<not> handlers (sockets (unmountEffect s) ! w) \<and>
                \<not> isLive (sockets (unmountEffect s) ! w)) \<and>
         stopped s' \<and> length (sockets s') = length (sockets s) \<and>
         (\<forall>k throws rnd. runTimer k throws rnd s' = s')"
proof -
  have st: "stopped s'" and len: "length (sockets s') = length (sockets s)"
    unfolding assms(2)
    using run_stopped [OF unmountEffect_stopped assms(1), of s]
    by (simp_all add: unmountEffect_fields)
  from st have "\<forall>k throws rnd. runTimer k throws rnd s' = s'"
    by (simp add: stopped_runTimer)
  with st len show ?thesis
    using unmountEffect_idem [of s] unmountEffect_fields(1-3) [of s]
      unmountEffect_cancels [of _ s] unmountEffect_detaches [of s]
    by blast
qed

theorem stop_is_final_witness:
  "list_all (\<lambda>x. notMount (snd (snd x))) afterStopTrace \<and>
   unmountEffect (unmountEffect openState) = unmountEffect openState \<and>
   timers openState = [None, None, Some (PingTimer, 25050)] \<and>
   timers (unmountEffect openState) = [None, None, None] \<and>
   \<not> handlers (sockets (unmountEffect openState) ! 0) \<and>
   stopped (run afterStopTrace (unmountEffect openState)) \<and>
   length (sockets (run afterStopTrace (unmountEffect openState))) = 1 \<and>
   runTimer GraceTimer False 0 (run afterStopTrace (unmountEffect openState))
     = run afterStopTrace (unmountEffect openState)"
proof -
  have q: "list_all (\<lambda>x. notMount (snd (snd x))) afterStopTrace"
    by (simp add: afterStopTrace_def)
  have o: "wsRef openState = Some 0" "length (sockets openState) = 1"
    "timers openState = [None, None, Some (PingTimer, 25050)]"
    by (simp_all add: openState_eq)
  have t: "timers (unmountEffect openState) = [None, None, None]"
    by (simp add: unmountEffect_timers openState_eq clearTimeout_def)
  from stop_is_final [OF q refl, of openState] q o t show ?thesis by simp
qed

text \<open>
  The claim as stated, that the cleanup cancels every pending timer so that none fires
  afterwards, fails for the 100 ms timer of a manual reconnect, whose id is stored
  nowhere: after mount, manual reconnect and unmount it is still pending, and 100 ms
  later it fires.
\<close>

theorem stop_leaves_grace_timer:
  "timers (run stopTrace initial) = [None, Some (GraceTimer, 100)] \<and>
   timers (run (stopTrace @ [(False, 0, Advance 100), (False, 0, Fire 1)]) initial) = [None, None]"
  by (simp add: run_append stopTrace_eq step_def fire_def runTimer_def graceHandler_def)

subsection \<open>Reset on success\<close>

lemma openOn_live: "openOn w s \<Longrightarrow> live s"
  by (simp add: openOn_def live_def)

lemma openOn_other:
  assumes "openOn w s" "w' \<noteq> w"
  shows "openOn w (upd_socket w' f s)"
  using assms by (simp add: openOn_def ready_def)

lemma openOn_connect: "openOn w s \<Longrightarrow> connect throws rnd s = s"
  by (simp add: connect_skip openOn_live)

lemma openOn_runTimer:
  assumes "openOn w s"
  shows "openOn w (runTimer k throws rnd s)"
proof (cases k)
  case (ConnectionTimer w')
  have "connectionTimeoutHandler w' rnd s = s"
    using assms by (auto simp: connectionTimeoutHandler_def openOn_def)
  with assms ConnectionTimer show ?thesis by (simp add: runTimer_def)
next
  case PingTimer
  have "openOn w (upd_socket w (\<lambda>k. k\<lparr>pings := pings k + 1\<rparr>) s)"
    using assms by (simp add: openOn_def ready_def)
  with assms PingTimer show ?thesis
    by (simp add: runTimer_def pingHandler_def openOn_def)
qed (use assms in \<open>simp_all add: runTimer_def reconnectHandler_def graceHandler_def
       mountHandler_def openOn_connect\<close>)

lemma openOn_fire:
  assumes "openOn w s"
  shows "openOn w (fire t throws rnd s)"
proof -
  have "openOn w (s\<lparr>timers := ts\<rparr>)" for ts
    using assms by (simp add: openOn_def ready_def)
  then have "openOn w (runTimer k throws rnd (s\<lparr>timers := ts\<rparr>))" for k ts
    by (rule openOn_runTimer)
  with assms show ?thesis by (simp add: fire_def split: option.split)
qed

lemma step_openOn:
  assumes "openOn w s" "keepsOpen w e"
  shows "openOn w (step throws rnd e s)"
proof (cases e)
  case Mount
  with assms show ?thesis by (simp add: step_def mountEffect_def openOn_def ready_def)
next
  case (VisibilityChange v)
  have "isOpen s" using assms by (simp add: isOpen_def openOn_def)
  with assms VisibilityChange show ?thesis by (simp add: step_def handleVisibilityChange_def)
next
  case Online
  have o: "openOn w (s\<lparr>reconnectAttemptsRef := 0\<rparr>)"
    using assms by (simp add: openOn_def ready_def)
  with Online assms(1) show ?thesis
    by (simp add: step_def handleOnline_def openOn_connect [OF o])
next
  case Offline
  with assms show ?thesis by (simp add: step_def handleOffline_def openOn_def ready_def)
next
  case (Advance d)
  with assms show ?thesis by (simp add: step_def openOn_def ready_def)
next
  case (Fire t)
  with assms show ?thesis by (simp add: step_def openOn_fire)
next
  case (SockOpen w')
  show ?thesis
  proof (cases "w' = w")
    case True
    with assms SockOpen show ?thesis by (simp add: step_def openOn_def)
  next
    case False
    let ?s1 = "upd_socket w' (\<lambda>k. k\<lparr>readyState := OPEN\<rparr>) s"
    have o1: "openOn w ?s1" using assms(1) False by (rule openOn_other)
    then have "wsRef ?s1 \<noteq> Some w'" using False by (simp add: openOn_def)
    then have "onopen w' ?s1 = upd_socket w' (close_socket CloseNoArgs) ?s1"
      by (simp add: onopen_def)
    moreover have "openOn w (upd_socket w' (close_socket CloseNoArgs) ?s1)"
      using o1 False by (rule openOn_other)
    ultimately show ?thesis using assms(1) o1 SockOpen
      by (simp add: step_def Let_def)
  qed
next
  case (SockMessage w' f)
  have "openOn w (onmessage w' f s)" using assms(1) by (simp add: openOn_def ready_def)
  with assms SockMessage show ?thesis by (simp add: step_def)
next
  case (SockError w')
  with assms show ?thesis by (simp add: step_def)
next
  case (SockClose w' code reason)
  with assms(2) have ne: "w' \<noteq> w" by simp
  let ?s1 = "upd_socket w' (\<lambda>k. k\<lparr>readyState := CLOSED\<rparr>) s"
  have o1: "openOn w ?s1" using assms(1) ne by (rule openOn_other)
  then have "wsRef ?s1 \<noteq> Some w'" using ne by (simp add: openOn_def)
  then have "onclose w' code reason rnd ?s1 = ?s1" by (simp add: onclose_def)
  with assms(1) o1 SockClose show ?thesis by (simp add: step_def Let_def)
qed (use assms in simp_all)

lemma run_openOn:
  assumes "openOn w s" "list_all (\<lambda>x. keepsOpen w (snd (snd x))) es"
  shows "openOn w (run es s)"
  using assms
  by (induction es s rule: run.induct) (simp_all add: step_openOn)

lemma sock_open_openOn:
  assumes "wsRef s = Some w" "w < length (sockets s)" "ready s w = CONNECTING"
    "handlers (sockets s ! w)" "isMountedRef s" "\<not> isCleaningUpRef s"
  shows "openOn w (step throws rnd (SockOpen w) s)"
proof -
  let ?s1 = "upd_socket w (\<lambda>k. k\<lparr>readyState := OPEN\<rparr>) s"
  have "step throws rnd (SockOpen w) s = onopen w ?s1"
    using assms by (simp add: step_def Let_def)
  moreover have "openOn w (onopen w ?s1)"
    using assms by (simp add: onopen_def Let_def openOn_def ready_def)
  ultimately show ?thesis by simp
qed

lemma close_after_open:
  assumes "openOn w s" "\<not> (code = 1000 \<and> reason = ''Client cleanup'')"
  shows "reconnectAttemptsRef (step throws rnd (SockClose w code reason) s) = 1"
    and "reconnectTimeoutRef (step throws rnd (SockClose w code reason) s) = Some (length (timers s))"
    and "timers (step throws rnd (SockClose w code reason) s) ! length (timers s)
           = Some (ReconnectTimer, clock s + reconnectDelay 1 rnd)"
proof -
  from assms have l: "isLostClosure (SockClose w code reason) s"
    and z: "reconnectAttemptsRef s = 0" by (simp_all add: openOn_def)
  show "reconnectAttemptsRef (step throws rnd (SockClose w code reason) s) = 1"
    using lost_closure_step(1) [OF l, of throws rnd] z by simp
  show "reconnectTimeoutRef (step throws rnd (SockClose w code reason) s) = Some (length (timers s))"
    by (rule lost_closure_step(2) [OF l])
  show "timers (step throws rnd (SockClose w code reason) s) ! length (timers s)
           = Some (ReconnectTimer, clock s + reconnectDelay 1 rnd)"
    using lost_closure_step(3) [OF l, of throws rnd] z by simp
qed

text \<open>
  C8, as the code has it.  Whatever the attempt counter was, the open event of the
  current socket sets it to 0; it stays 0 through every event until that socket closes,
  the hook is unmounted or a manual reconnect is made; and the close of that socket,
  unless it is the intentional one, sets it to 1 and arms the reconnect timer with the
  delay of a first attempt: a base of 2000 ms, a total of at least 2000 ms and at most
  3000 ms.
\<close>

theorem reset_on_success:
  assumes "wsRef s = Some w" "w < length (sockets s)" "ready s w = CONNECTING"
    "handlers (sockets s ! w)" "isMountedRef s" "\<not> isCleaningUpRef s"
    and "list_all (\<lambda>x. keepsOpen w (snd (snd x))) es"
    and "randomValue rnd" "\<not> (code = 1000 \<and> reason = ''Client cleanup'')"
    and "s1 = run es (step throws0 rnd0 (SockOpen w) s)"
    and "s2 = step throws rnd (SockClose w code reason) s1"
  shows "reconnectAttemptsRef (step throws0 rnd0 (SockOpen w) s) = 0 \<and>
         reconnectAttemptsRef s1 = 0 \<and>
         reconnectAttemptsRef s2 = 1 \<and>
         reconnectTimeoutRef s2 = Some (length (timers s1)) \<and>
         timers s2 ! length (timers s1) = Some (ReconnectTimer, clock s1 + reconnectDelay 1 rnd) \<and>
         baseDelay 1 = 2000 \<and>
         2000 \<le> reconnectDelay 1 rnd \<and> reconnectDelay 1 rnd \<le> 3000"
proof -
  have o0: "openOn w (step throws0 rnd0 (SockOpen w) s)"
    using assms(1-6) by (rule sock_open_openOn)
  then have o1: "openOn w s1" unfolding assms(10) using assms(7) by (rule run_openOn)
  note c = close_after_open [OF o1 assms(9), of throws rnd, folded assms(11)]
  from o0 o1 c reconnectDelay_first [OF assms(8)] baseDelay_1 show ?thesis
    by (simp add: openOn_def)
qed

theorem reset_on_success_witness:
  "reconnectAttemptsRef retriedState = 3 \<and>
   reconnectAttemptsRef (step False 0 (SockOpen 0) retriedState) = 0 \<and>
   reconnectAttemptsRef (run quietTrace (step False 0 (SockOpen 0) retriedState)) = 0 \<and>
   randomValue (1 / 2) \<and>
   reconnectAttemptsRef (step False (1 / 2) (SockClose 0 1006 [])
       (run quietTrace (step False 0 (SockOpen 0) retriedState))) = 1 \<and>
   2000 \<le> reconnectDelay 1 (1 / 2) \<and> reconnectDelay 1 (1 / 2) \<le> 3000"
proof -
  have h: "wsRef retriedState = Some 0" "0 < length (sockets retriedState)"
    "ready retriedState 0 = CONNECTING" "handlers (sockets retriedState ! 0)"
    "isMountedRef retriedState" "\<not> isCleaningUpRef retriedState"
    by (simp_all add: retriedState_def connectingState_eq ready_def)
  have q: "list_all (\<lambda>x. keepsOpen 0 (snd (snd x))) quietTrace"
    by (simp add: quietTrace_def)
  have r: "\<not> ((1006::nat) = 1000 \<and> [] = ''Client cleanup'')"
    by simp
  have "reconnectAttemptsRef retriedState = 3"
    by (simp add: retriedState_def)
  with reset_on_success [OF h q randomValue_examples(2) r refl refl, of False 0 False]
    randomValue_examples(2)
  show ?thesis by simp
qed

text \<open>
  The claim as stated, that the total is less than 3000 ms, fails when
  \<^verbatim>\<open>Math.random()\<close> returns its largest value, \<open>1 - 2^-53\<close>, or the double before it,
  \<open>1 - 2^-52\<close>: the jitter is then within \<open>2^-42\<close> of 1000, the sum of 2000 and the
  jitter rounds to the double 3000, and the first closure after an open arms the timer
  3000 ms ahead.
\<close>

theorem reset_on_success_counterexample:
  "randomValue (1 - 1 / 2 ^ 53) \<and> randomValue (1 - 1 / 2 ^ 52) \<and>
   reconnectAttemptsRef openState = 0 \<and>
   reconnectAttemptsRef (step False (1 - 1 / 2 ^ 53) (SockClose 0 1006 []) openState) = 1 \<and>
   timers (step False (1 - 1 / 2 ^ 53) (SockClose 0 1006 []) openState) ! 3
     = Some (ReconnectTimer, 50 + 3000) \<and>
   timers (step False (1 - 1 / 2 ^ 52) (SockClose 0 1006 []) openState) ! 3
     = Some (ReconnectTimer, 50 + 3000) \<and>
   reconnectDelay 1 (1 - 1 / 2 ^ 53) = 3000 \<and> reconnectDelay 1 (1 - 1 / 2 ^ 52) = 3000 \<and>
   \<not> reconnectDelay 1 (1 - 1 / 2 ^ 53) < 3000"
proof -
  have o: "openOn 0 openState" by (simp add: openOn_def openState_eq ready_def)
  have r: "\<not> ((1006::nat) = 1000 \<and> [] = ''Client cleanup'')" by simp
  have f: "length (timers openState) = 3" "clock openState = 50"
    "reconnectAttemptsRef openState = 0" by (simp_all add: openState_eq)
  have d: "reconnectDelay 1 (1 - 1 / 2 ^ 53) = 3000" "reconnectDelay 1 (1 - 1 / 2 ^ 52) = 3000"
    unfolding One_nat_def by (rule reconnectDelay_top reconnectDelay_top_52(1))+
  note a = close_after_open [OF o r, of False "1 - 1 / 2 ^ 53", unfolded f d]
  note b = close_after_open [OF o r, of False "1 - 1 / 2 ^ 52", unfolded f d]
  from a b f d randomValue_examples(3) randomValue_top_52 show ?thesis by simp
qed

subsection \<open>Inbound frames\<close>

text \<open>
  C7.  A frame on which \<^verbatim>\<open>JSON.parse\<close> throws leaves the whole session as it was,
  whether seen at the handler or as the browser's message event: the connection state
  stays what it was (so an open connection stays open), snapshot and history are
  unchanged, no socket is closed and no timer is armed.
\<close>

theorem malformed_frame_discarded:
  "onmessage w None s = s \<and> step throws rnd (SockMessage w None) s = s"
  by (simp add: step_def onmessage_def)

theorem malformed_frame_discarded_witness:
  "connectionStateRef openState = Connected \<and>
   onmessage 0 None openState = openState \<and>
   step False 0 (SockMessage 0 None) openState = openState \<and>
   connectionStateRef (step False 0 (SockMessage 0 None) openState) = Connected"
  using malformed_frame_discarded [of 0 openState False 0]
  by (simp add: openState_eq)

text \<open>
  C10.  A \<^verbatim>\<open>market_data\<close> or \<^verbatim>\<open>signal_history\<close> frame whose \<^verbatim>\<open>data\<close> field is absent or
  \<^verbatim>\<open>null\<close> changes nothing at all, whatever else the frame carries; so a
  \<^verbatim>\<open>market_data\<close> frame without \<^verbatim>\<open>data\<close> does not apply its \<^verbatim>\<open>signal_history\<close> list.
\<close>

theorem missing_payload_guard:
  assumes "getProp m ''type'' = Some (JStr ''market_data'') \<or>
           getProp m ''type'' = Some (JStr ''signal_history'')"
      and "getProp m ''data'' = None \<or> getProp m ''data'' = Some JNull"
  shows "onmessage w (Some m) s = s"
  using assms by (auto simp add: onmessage_def dispatch_def)

theorem missing_payload_guard_witness:
  "getProp historyOnlyFrame ''type'' = Some (JStr ''market_data'') \<and>
   getProp historyOnlyFrame ''data'' = None \<and>
   getProp historyOnlyFrame ''signal_history'' = Some (JArr [JStr ''BUY'']) \<and>
   onmessage 0 (Some historyOnlyFrame) openState = openState \<and>
   signalHistory (onmessage 0 (Some historyOnlyFrame) openState) = JArr []"
proof -
  have h1: "getProp historyOnlyFrame ''type'' = Some (JStr ''market_data'') \<or>
            getProp historyOnlyFrame ''type'' = Some (JStr ''signal_history'')"
    by (simp add: historyOnlyFrame_def)
  have h2: "getProp historyOnlyFrame ''data'' = None \<or>
            getProp historyOnlyFrame ''data'' = Some JNull"
    by (simp add: historyOnlyFrame_def)
  have "onmessage 0 (Some historyOnlyFrame) openState = openState"
    by (rule missing_payload_guard [OF h1 h2])
  then show ?thesis
    by (simp add: historyOnlyFrame_def openState_eq)
qed

subsection \<open>The history buffer\<close>

lemma truthy_Some: "truthy x \<Longrightarrow> \<exists>v. x = Some v"
  by (cases x) simp_all

lemma dispatch_history:
  "signalHistory (dispatch m s) = (case historyPayload m of None \<Rightarrow> signalHistory s | Some h \<Rightarrow> h)"
  by (auto simp: dispatch_def historyPayload_def Let_def dest: truthy_Some)

lemma history_frame1 [simp]:
  "signalHistory (clearTimers s) = signalHistory s"
  "signalHistory (scheduleReconnect rnd s) = signalHistory s"
  "signalHistory (startPingInterval s) = signalHistory s"
  "signalHistory (cleanup b s) = signalHistory s"
  "signalHistory (dropSocket s) = signalHistory s"
  by (simp_all add: clearTimers_def scheduleReconnect_def startPingInterval_def cleanup_def
      dropSocket_def Let_def split: option.split)

lemma history_connect [simp]: "signalHistory (connect throws rnd s) = signalHistory s"
proof (cases "\<not> isMountedRef s \<or> isCleaningUpRef s \<or> live s")
  case True
  then show ?thesis by (simp only: connect_skip)
next
  case False
  then show ?thesis by (cases throws) (simp_all add: connect_throws connect_new)
qed

lemma history_frame2 [simp]:
  "signalHistory (connectionTimeoutHandler w rnd s) = signalHistory s"
  "signalHistory (onopen w s) = signalHistory s"
  "signalHistory (onclose w code reason rnd s) = signalHistory s"
  "signalHistory (pingHandler s) = signalHistory s"
  "signalHistory (reconnect s) = signalHistory s"
  "signalHistory (mountEffect s) = signalHistory s"
  "signalHistory (unmountEffect s) = signalHistory s"
  "signalHistory (handleVisibilityChange v throws rnd s) = signalHistory s"
  "signalHistory (handleOnline throws rnd s) = signalHistory s"
  "signalHistory (handleOffline s) = signalHistory s"
  by (simp_all add: connectionTimeoutHandler_def onopen_def onclose_def pingHandler_def
      reconnect_def mountEffect_def unmountEffect_def handleVisibilityChange_def
      handleOnline_def handleOffline_def Let_def split: option.split)

lemma history_runTimer [simp]: "signalHistory (runTimer k throws rnd s) = signalHistory s"
  by (cases k) (simp_all add: runTimer_def reconnectHandler_def graceHandler_def mountHandler_def)

lemma history_fire [simp]: "signalHistory (fire t throws rnd s) = signalHistory s"
  by (simp add: fire_def split: option.split)

lemma step_history:
  "signalHistory (step throws rnd e s) =
     (case e of
        SockMessage w (Some m) \<Rightarrow>
          (if w < length (sockets s) \<and> ready s w = OPEN \<and> handlers (sockets s ! w) \<and>
              wsRef s = Some w
           then (case historyPayload m of None \<Rightarrow> signalHistory s | Some h \<Rightarrow> h)
           else signalHistory s)
      | _ \<Rightarrow> signalHistory s)"
proof (cases e)
  case (SockMessage w f)
  then show ?thesis
    by (cases f) (simp_all add: step_def onmessage_def dispatch_history)
qed (simp_all add: step_def Let_def)

text \<open>
  C9, as the code has it.  The hook neither bounds nor orders the history: after an
  event it is the payload of the frame just received, exactly as received, when that
  frame arrived on the current open socket and is a \<^verbatim>\<open>market_data\<close> frame with a truthy
  \<^verbatim>\<open>data\<close> and a truthy \<^verbatim>\<open>signal_history\<close>, or a \<^verbatim>\<open>signal_history\<close> frame with a truthy
  \<^verbatim>\<open>data\<close>; after every other frame and every other event it is what it was.
\<close>

theorem history_replaced_wholesale:
  "signalHistory (step throws rnd e s) =
     (case e of
        SockMessage w (Some m) \<Rightarrow>
          (if w < length (sockets s) \<and> ready s w = OPEN \<and> handlers (sockets s ! w) \<and>
              wsRef s = Some w
           then (case historyPayload m of None \<Rightarrow> signalHistory s | Some h \<Rightarrow> h)
           else signalHistory s)
      | _ \<Rightarrow> signalHistory s)"
  by (rule step_history)

theorem history_replaced_wholesale_witness:
  "signalHistory (step False 0 (SockMessage 0 (Some (historyFrame 3))) openState)
     = JArr [JNull, JNull, JNull] \<and>
   signalHistory (step False 0 (SockMessage 0 (Some historyOnlyFrame)) openState) = JArr [] \<and>
   signalHistory (step False 0 (SockClose 0 1006 []) openState) = JArr []"
  using history_replaced_wholesale [of False 0 "SockMessage 0 (Some (historyFrame 3))" openState]
    history_replaced_wholesale [of False 0 "SockMessage 0 (Some historyOnlyFrame)" openState]
    history_replaced_wholesale [of False 0 "SockClose 0 1006 []" openState]
  by (simp add: openState_eq ready_def historyPayload_def historyFrame_def historyOnlyFrame_def
      numeral_3_eq_3)

text \<open>
  The claim as stated, that some fixed number bounds the history in every reachable
  state, fails: for every \<open>N\<close> a \<^verbatim>\<open>signal_history\<close> frame with \<open>N + 1\<close> records is
  stored whole.
\<close>

theorem history_unbounded:
  "\<not> (\<exists>N. \<forall>es. historyLength (signalHistory (run es initial)) \<le> N)"
proof
  assume "\<exists>N. \<forall>es. historyLength (signalHistory (run es initial)) \<le> N"
  then obtain N where b: "\<And>es. historyLength (signalHistory (run es initial)) \<le> N" by blast
  let ?pre = "[(False, 0, Mount), (False, 0, Advance 50), (False, 0, Fire 0), (False, 0, SockOpen 0)]"
  let ?es = "?pre @ [(False, 0, SockMessage 0 (Some (historyFrame (Suc N))))]"
  have "run ?es initial = step False 0 (SockMessage 0 (Some (historyFrame (Suc N)))) openState"
    unfolding run_append openState_run [symmetric] by simp
  moreover have "signalHistory (step False 0 (SockMessage 0 (Some (historyFrame (Suc N)))) openState)
      = JArr (replicate (Suc N) JNull)"
    unfolding step_history
    by (simp add: openState_eq ready_def historyPayload_def historyFrame_def)
  ultimately have "historyLength (signalHistory (run ?es initial)) = Suc N" by simp
  with b [of ?es] show False by simp
qed

end
